theory Spec2Isabelle
  imports Main "HOL-Library.Word"
begin

section \<open>Builds and failures\<close>

text \<open>
  \<^verbatim>\<open>TBOX_ASSERT\<close> aborts in a checked build (\<^verbatim>\<open>DEBUG_CHECK_ASSERTIONS\<close>) and is
  compiled out otherwise; every function that asserts takes the build as its first argument
  \<open>checked\<close>. With the assertions compiled out, a null pointer dereference or an
  out-of-range index is undefined behaviour, which the model reports as an error of its own.
\<close>

datatype error = AssertionFailed | UndefinedBehaviour

definition null_access :: "bool \<Rightarrow> error" where
  "null_access checked = (if checked then AssertionFailed else UndefinedBehaviour)"

section \<open>tbox::DatabaseBox (source/SAMRAI/tbox/DatabaseBox.h)\<close>

text \<open>
  \<^verbatim>\<open>SAMRAI::MAX_DIM_VAL\<close> comes from the build configuration; the top-level
  CMakeLists.txt sets the cache variable \<^verbatim>\<open>MAXDIM\<close> to 3.
\<close>

definition MAX_DIM_VAL :: nat where
  "MAX_DIM_VAL = 3"

text \<open>
  \<^verbatim>\<open>struct DatabaseBox_POD { int d_dimension; std::array<int, MAX_DIM_VAL> d_lo, d_hi; }\<close>.
  The two arrays are lists; a read at an index that is not below the length of the list is
  the out-of-bounds read of the C++ array and is the value \<open>None\<close> of the model.
\<close>

record DatabaseBox_POD =
  d_dimension :: int
  d_lo :: "int list"
  d_hi :: "int list"

text \<open>The default constructor value-initialises \<^verbatim>\<open>d_data{}\<close>: everything is zero.\<close>

definition DatabaseBox_default :: DatabaseBox_POD where
  "DatabaseBox_default =
     \<lparr>d_dimension = 0, d_lo = replicate MAX_DIM_VAL 0, d_hi = replicate MAX_DIM_VAL 0\<rparr>"

text \<open>
  The constructor from a dimension and two corner arrays. \<open>None\<close> is the null pointer; a
  corner array shorter than the dimension is read past its end. The components from the
  dimension on are set to zero.
\<close>

definition DatabaseBox_new ::
    "bool \<Rightarrow> int \<Rightarrow> int list option \<Rightarrow> int list option \<Rightarrow> error + DatabaseBox_POD" where
  "DatabaseBox_new checked dim_val lower upper =
     (if checked \<and> \<not> (dim_val \<ge> 0 \<and> dim_val \<le> int MAX_DIM_VAL
                        \<and> (dim_val = 0 \<or> lower \<noteq> None) \<and> (dim_val = 0 \<or> upper \<noteq> None))
      then Inl AssertionFailed
      else if dim_val < 0 \<or> int MAX_DIM_VAL < dim_val then Inl UndefinedBehaviour
      else if dim_val = 0 then
        Inr \<lparr>d_dimension = 0, d_lo = replicate MAX_DIM_VAL 0, d_hi = replicate MAX_DIM_VAL 0\<rparr>
      else
        (case (lower, upper) of
           (Some lo, Some hi) \<Rightarrow>
             if nat dim_val \<le> length lo \<and> nat dim_val \<le> length hi
             then Inr \<lparr>d_dimension = dim_val,
                       d_lo = take (nat dim_val) lo @ replicate (MAX_DIM_VAL - nat dim_val) 0,
                       d_hi = take (nat dim_val) hi @ replicate (MAX_DIM_VAL - nat dim_val) 0\<rparr>
             else Inl UndefinedBehaviour
         | _ \<Rightarrow> Inl UndefinedBehaviour))"

definition setDim :: "bool \<Rightarrow> DatabaseBox_POD \<Rightarrow> int \<Rightarrow> error + DatabaseBox_POD" where
  "setDim checked b dim_val =
     (if checked \<and> \<not> (dim_val \<ge> 0 \<and> dim_val \<le> int MAX_DIM_VAL) then Inl AssertionFailed
      else Inr (b\<lparr>d_dimension := dim_val\<rparr>))"

text \<open>
  The loop \<^verbatim>\<open>for (int i = 0; i < d_data.d_dimension; i++) if (d_hi[i] < d_lo[i]) return true;\<close>
  of \<^verbatim>\<open>empty()\<close>, entered at index \<open>i\<close>.
\<close>

definition empty_loop_measure :: "((DatabaseBox_POD \<times> int) \<times> (DatabaseBox_POD \<times> int)) set" where
  "empty_loop_measure = measure (\<lambda>(b, i). nat (d_dimension b - i))"

function empty_loop :: "DatabaseBox_POD \<Rightarrow> int \<Rightarrow> bool option" where
  "empty_loop b i =
     (if i < d_dimension b then
        (if 0 \<le> i \<and> nat i < length (d_hi b) \<and> nat i < length (d_lo b) then
           (if d_hi b ! nat i < d_lo b ! nat i then Some True else empty_loop b (i + 1))
         else None)
      else Some False)"
  by pat_completeness auto
termination
  by (relation empty_loop_measure) (auto simp: empty_loop_measure_def)

declare empty_loop.simps [simp del]

definition DatabaseBox_empty :: "DatabaseBox_POD \<Rightarrow> bool option" where
  "DatabaseBox_empty b = (if d_dimension b = 0 then Some True else empty_loop b 0)"

section \<open>hier::Box and the box algebra\<close>

text \<open>
  Modelled from the spec: hier::Box, hier::BoxContainer, pdat::EdgeGeometry and
  hier::BoxUtilities are used by the operator but are not among the sources. A box is an
  axis-aligned region of the integer index space given by inclusive lower and upper corners;
  the \<open>k\<close>-th pair of the list holds \<open>(lower[k], upper[k])\<close> and the length of the list is
  the dimension.
\<close>

type_synonym box = "(int \<times> int) list"

text \<open>
  Modelled from the spec: a box is "empty iff any upper[i] < lower[i] or D==0"; its size is
  the number of index points it holds, none when it is empty.
\<close>

definition box_empty :: "box \<Rightarrow> bool" where
  "box_empty b = (b = [] \<or> list_ex (\<lambda>(l, h). h < l) b)"

definition box_size :: "box \<Rightarrow> nat" where
  "box_size b = (if box_empty b then 0 else prod_list (map (\<lambda>(l, h). nat (h - l + 1)) b))"

text \<open>
  Modelled from the spec: the index points of a box, the entities that a data array over the
  box stores, are the integer vectors of the dimension of the box that lie between its
  corners; a box of dimension 0 has none.
\<close>

definition points_of :: "box \<Rightarrow> int list set" where
  "points_of b = {p. list_all2 (\<lambda>x (l, h). l \<le> x \<and> x \<le> h) p b}"

definition box_points :: "box \<Rightarrow> int list set" where
  "box_points b = (if b = [] then {} else points_of b)"

text \<open>
  Modelled from the spec: the geometry adapter for the edge variant, "face/edge on axis a:
  upper[a]+1, others unchanged". The operator below takes the adapter as a parameter, so that
  its properties do not depend on the convention; this instance is the one the spec words.
\<close>

definition toEdgeBox_spec :: "box \<Rightarrow> nat \<Rightarrow> box" where
  "toEdgeBox_spec b a = (if a < length b then b[a := (fst (b ! a), snd (b ! a) + 1)] else b)"

text \<open>
  Modelled from the spec: \<^verbatim>\<open>makeNonOverlappingBoxContainers(out, in)\<close> "takes a (possibly
  overlapping) collection of Boxes and fills out, one collection per input element", where
  the input boxes are processed in their given order and "later boxes' overlaps with earlier
  already-placed regions are subtracted".

  \<open>burst a b\<close> cuts \<open>a\<close> along the faces of an intersecting box \<open>b\<close> and keeps what lies
  outside \<open>b\<close>; \<open>box_minus\<close> is the difference of two boxes as a list of boxes.
\<close>

fun burst :: "box \<Rightarrow> box \<Rightarrow> box list" where
  "burst ((al, ah) # as) ((bl, bh) # bs) =
     (if al < bl then [(al, bl - 1) # as] else []) @
     (if bh < ah then [(bh + 1, ah) # as] else []) @
     map (\<lambda>r. (max al bl, min ah bh) # r) (burst as bs)"
| "burst _ _ = []"

text \<open>
  Modelled from the spec: two boxes of the same dimension intersect when their intervals
  overlap on every axis; a box that does not intersect the other is left whole.
\<close>

definition intersects :: "box \<Rightarrow> box \<Rightarrow> bool" where
  "intersects a b =
     (a \<noteq> [] \<and> list_all2 (\<lambda>(al, ah) (bl, bh). max al bl \<le> min ah bh) a b)"

definition box_minus :: "box \<Rightarrow> box \<Rightarrow> box list" where
  "box_minus a b = (if intersects a b then burst a b else [a])"

text \<open>
  Modelled from the spec: the pieces of a container that remain when a box is taken away, and
  the decomposition itself. Each input box, in the given order, is cut by every box placed
  before it, and its remaining pieces are its container and are placed in turn.
\<close>

definition removeIntersections :: "box list \<Rightarrow> box \<Rightarrow> box list" where
  "removeIntersections pieces takeaway = concat (map (\<lambda>p. box_minus p takeaway) pieces)"

fun makeNonOverlapping_from :: "box list \<Rightarrow> box list \<Rightarrow> box list list" where
  "makeNonOverlapping_from placed [] = []"
| "makeNonOverlapping_from placed (b # bs) =
     (let out = foldl removeIntersections [b] placed
      in out # makeNonOverlapping_from (placed @ out) bs)"

definition makeNonOverlappingBoxContainers :: "box list \<Rightarrow> box list list" where
  "makeNonOverlappingBoxContainers boxes = makeNonOverlapping_from [] boxes"

section \<open>The patch hierarchy, as the operator reads it\<close>

text \<open>
  Modelled from the spec: hier::PatchHierarchy, hier::PatchLevel, hier::Patch,
  pdat::EdgeData, pdat::EdgeDataFactory, tbox::SAMRAI_MPI, tbox::MathUtilities and the
  single-patch operators (math::PatchEdgeDataOpsInteger) are external collaborators whose
  sources are absent. Each record holds what the hierarchy-wide operator reads through the
  accessor of the same name.
\<close>

text \<open>Modelled from the spec: a patch data array has a ghost box and stored scalars.\<close>

record EdgeData =
  getGhostBox :: box
  stored :: "int list"

text \<open>
  Modelled from the spec: the static metadata of a data id in the patch descriptor, its depth
  (components per entity) and its ghost-cell width.
\<close>

record EdgeDataFactory =
  getDepth :: int
  getGhostCellWidth :: "int list"

text \<open>
  Modelled from the spec: a patch is a box with data arrays indexed by integer ids.
  \<open>getPatchData p id\<close> is the result of casting \<^verbatim>\<open>p->getPatchData(id)\<close> to integer edge data:
  \<open>None\<close> is the null pointer of an id that does not resolve to such an array.
\<close>

record Patch =
  getBox :: box
  getPatchData :: "int \<Rightarrow> EdgeData option"

text \<open>
  Modelled from the spec: a level knows the boxes of all of its patches (\<^verbatim>\<open>getBoxes()\<close>), their number
  (\<^verbatim>\<open>getNumberOfPatches()\<close>), and owns the patches assigned to this process, which its
  iterator (\<^verbatim>\<open>begin()\<close> to \<^verbatim>\<open>end()\<close>) enumerates.
\<close>

record PatchLevel =
  getBoxes :: "box list"
  getNumberOfPatches :: int
  local_patches :: "Patch list"

datatype mpi_op = MPI_SUM | MPI_MIN | MPI_MAX

text \<open>
  Modelled from the spec: the communicator gives the process count and the collective-reduce
  primitive. \<open>Allreduce_int m op v\<close> is the value the collective hands back to this process
  when it contributes \<open>v\<close>; it is the environment's answer (the reduction over the
  contributions of all processes), the same on every process that takes part in the call.
\<close>

record SAMRAI_MPI =
  getSize :: int
  Allreduce_int :: "mpi_op \<Rightarrow> int \<Rightarrow> int"
  Allreduce_ulong :: "mpi_op \<Rightarrow> 64 word \<Rightarrow> 64 word"

text \<open>
  Modelled from the spec: the hierarchy holds its levels from coarsest to finest, its dimension, the patch descriptor
  (\<open>getPatchDataFactory h id\<close> is the factory of \<open>id\<close> cast to the integer edge factory,
  \<open>None\<close> for the null pointer) and its communicator.
\<close>

record PatchHierarchy =
  patch_levels :: "PatchLevel list"
  getDim :: nat
  getPatchDataFactory :: "int \<Rightarrow> EdgeDataFactory option"
  getMPI :: SAMRAI_MPI

text \<open>
  Modelled from the spec: the levels are numbered from 0, the coarsest, so the finest level
  number is the number of levels less one.
\<close>

definition getNumberOfLevels :: "PatchHierarchy \<Rightarrow> int" where
  "getNumberOfLevels h = int (length (patch_levels h))"

definition getFinestLevelNumber :: "PatchHierarchy \<Rightarrow> int" where
  "getFinestLevelNumber h = int (length (patch_levels h)) - 1"

text \<open>
  Modelled from the spec: levels are enumerated by index; a level number outside the hierarchy
  has no level, \<open>None\<close>.
\<close>

definition getPatchLevel :: "PatchHierarchy \<Rightarrow> int \<Rightarrow> PatchLevel option" where
  "getPatchLevel h ln =
     (if 0 \<le> ln \<and> ln < getNumberOfLevels h then Some (patch_levels h ! nat ln) else None)"

text \<open>
  Modelled from the spec: the single-patch operators that the reductions call; each takes the array and the region.
  \<^verbatim>\<open>numberOfEntries\<close> returns a \<^verbatim>\<open>size_t\<close>, a 64-bit unsigned value.
\<close>

record PatchEdgeDataOpsInteger =
  patch_numberOfEntries :: "EdgeData \<Rightarrow> box \<Rightarrow> 64 word"
  patch_min :: "EdgeData \<Rightarrow> box \<Rightarrow> int"
  patch_max :: "EdgeData \<Rightarrow> box \<Rightarrow> int"

text \<open>
  Modelled from the spec: \<^verbatim>\<open>tbox::MathUtilities<int>::getMax()\<close> is "the element type's
  maximum representable value", that of a 32-bit \<^verbatim>\<open>int\<close>; \<^verbatim>\<open>Min\<close> and \<^verbatim>\<open>Max\<close> of
  the same class are the minimum and the maximum of two values.
\<close>

definition getMax :: int where
  "getMax = 2147483647"

section \<open>math::HierarchyEdgeDataOpsInteger\<close>

subsection \<open>Outcomes and effects\<close>

text \<open>
  What an operation does to the outside is the sequence of its calls: the single-patch
  operator invoked on a patch of a level with data ids and a region, lines written to the
  output stream, and collective reductions.
\<close>

datatype patch_call =
    CopyData int int box
  | SwapData int int
  | PrintData int box
  | SetToScalar int int box
  | Scale int int int box
  | AddScalar int int int box
  | Add int int int box
  | Subtract int int int box
  | Multiply int int int box
  | Divide int int int box
  | Reciprocal int int box
  | LinearSum int int int int int box
  | Axpy int int int int box
  | Axmy int int int int box
  | Abs int int box
  | PatchMin int box
  | PatchMax int box
  | NumberOfEntries int box
  | SetRandomValues int int int box

datatype stream_line = DescriptorId int | FactoryName int | LevelNumber int

datatype event =
    PatchOp int Patch patch_call
  | StreamOut stream_line
  | AllreduceInt mpi_op int
  | AllreduceULong mpi_op "64 word"

text \<open>
  An operation returns the calls it made, in order, and either an error or its value. The
  calls made before an error are kept.
\<close>

type_synonym 'a outcome = "event list \<times> (error + 'a)"

text \<open>A \<^verbatim>\<open>for\<close> loop over the elements of a list that threads a value and stops at an error.\<close>

fun for_each :: "('p \<Rightarrow> 'a \<Rightarrow> 'a outcome) \<Rightarrow> 'p list \<Rightarrow> 'a \<Rightarrow> 'a outcome" where
  "for_each body [] acc = ([], Inr acc)"
| "for_each body (p # ps) acc =
     (case body p acc of
        (ev, Inl e) \<Rightarrow> (ev, Inl e)
      | (ev, Inr acc') \<Rightarrow> (case for_each body ps acc' of (ev', r) \<Rightarrow> (ev @ ev', r)))"

text \<open>The same loop for code that makes no calls.\<close>

fun fold_err :: "('p \<Rightarrow> 's \<Rightarrow> error + 's) \<Rightarrow> 'p list \<Rightarrow> 's \<Rightarrow> error + 's" where
  "fold_err body [] s = Inr s"
| "fold_err body (p # ps) s =
     (case body p s of Inl e \<Rightarrow> Inl e | Inr s' \<Rightarrow> fold_err body ps s')"

subsection \<open>The operator object\<close>

text \<open>
  \<^verbatim>\<open>d_nonoverlapping_edge_boxes[nd][ln][il]\<close> is the box container of patch \<open>il\<close> of level
  \<open>ln\<close> for the edges along axis \<open>nd\<close>: an array of \<^verbatim>\<open>MAX_DIM_VAL\<close> vectors (one entry
  per level) of vectors (one entry per patch) of box containers.
\<close>

type_synonym edge_box_table = "box list list list list"

record HierarchyEdgeDataOpsInteger =
  d_hierarchy :: "PatchHierarchy option"
  d_coarsest_level :: int
  d_finest_level :: int
  d_nonoverlapping_edge_boxes :: edge_box_table
  d_patch_ops :: PatchEdgeDataOpsInteger

text \<open>\<^verbatim>\<open>v.resize(n)\<close> of a vector of vectors: new entries are empty.\<close>

definition resize :: "nat \<Rightarrow> 'a list list \<Rightarrow> 'a list list" where
  "resize n v = take n v @ replicate (n - length v) []"

text \<open>
  Reading \<^verbatim>\<open>d_nonoverlapping_edge_boxes[nd][ln]\<close> and assigning to it; \<open>None\<close> when an
  index is out of range.
\<close>

definition edge_boxes_at :: "edge_box_table \<Rightarrow> nat \<Rightarrow> int \<Rightarrow> box list list option" where
  "edge_boxes_at tbl nd ln =
     (if nd < length tbl \<and> 0 \<le> ln \<and> nat ln < length (tbl ! nd) then Some (tbl ! nd ! nat ln)
      else None)"

definition set_edge_boxes ::
    "edge_box_table \<Rightarrow> nat \<Rightarrow> int \<Rightarrow> box list list \<Rightarrow> edge_box_table option" where
  "set_edge_boxes tbl nd ln v =
     (if nd < length tbl \<and> 0 \<le> ln \<and> nat ln < length (tbl ! nd)
      then Some (tbl[nd := (tbl ! nd)[nat ln := v]])
      else None)"

text \<open>
  \<^verbatim>\<open>resetLevels(coarsest_level, finest_level)\<close>. The first loop resizes the vector of each
  axis to \<open>finest_level + 1\<close> entries; the second visits the levels of the range and, for
  each axis, converts the boxes of the level to edge boxes and stores their non-overlapping
  decomposition. \<open>toEdgeBox\<close> is \<^verbatim>\<open>pdat::EdgeGeometry::toEdgeBox\<close>.
\<close>

definition resetLevels_resize :: "nat \<Rightarrow> int \<Rightarrow> edge_box_table \<Rightarrow> error + edge_box_table" where
  "resetLevels_resize dimVal finest_level tbl0 =
     fold_err (\<lambda>d tbl.
         if d < length tbl \<and> 0 \<le> finest_level + 1
         then Inr (tbl[d := resize (nat (finest_level + 1)) (tbl ! d)])
         else Inl UndefinedBehaviour)
       [0..<dimVal] tbl0"

definition resetLevels_level ::
    "(box \<Rightarrow> nat \<Rightarrow> box) \<Rightarrow> PatchHierarchy \<Rightarrow> nat \<Rightarrow> int \<Rightarrow> edge_box_table
      \<Rightarrow> error + edge_box_table" where
  "resetLevels_level toEdgeBox h dimVal ln tbl0 =
     (case getPatchLevel h ln of
        None \<Rightarrow> Inl UndefinedBehaviour
      | Some level \<Rightarrow>
          fold_err (\<lambda>nd tbl.
              let edge_boxes = map (\<lambda>i. toEdgeBox i nd) (getBoxes level)
              in case set_edge_boxes tbl nd ln (makeNonOverlappingBoxContainers edge_boxes) of
                   None \<Rightarrow> Inl UndefinedBehaviour
                 | Some tbl' \<Rightarrow> Inr tbl')
            [0..<dimVal] tbl0)"

definition levels_valid :: "PatchHierarchy \<Rightarrow> int \<Rightarrow> int \<Rightarrow> bool" where
  "levels_valid h coarsest_level finest_level =
     (coarsest_level \<ge> 0 \<and> finest_level \<ge> coarsest_level
      \<and> finest_level \<le> getFinestLevelNumber h)"

definition resetLevels ::
    "bool \<Rightarrow> (box \<Rightarrow> nat \<Rightarrow> box) \<Rightarrow> HierarchyEdgeDataOpsInteger \<Rightarrow> int \<Rightarrow> int
      \<Rightarrow> error + HierarchyEdgeDataOpsInteger" where
  "resetLevels checked toEdgeBox ops coarsest_level finest_level =
     (case d_hierarchy ops of
        None \<Rightarrow> Inl (null_access checked)
      | Some h \<Rightarrow>
          if checked \<and> \<not> levels_valid h coarsest_level finest_level then Inl AssertionFailed
          else
            let dimVal = getDim h;
                ops1 = ops\<lparr>d_coarsest_level := coarsest_level, d_finest_level := finest_level\<rparr>
            in case resetLevels_resize dimVal (d_finest_level ops1)
                      (d_nonoverlapping_edge_boxes ops1) of
                 Inl e \<Rightarrow> Inl e
               | Inr tbl1 \<Rightarrow>
                   (case fold_err (resetLevels_level toEdgeBox h dimVal)
                           [d_coarsest_level ops1..d_finest_level ops1] tbl1 of
                      Inl e \<Rightarrow> Inl e
                    | Inr tbl2 \<Rightarrow> Inr (ops1\<lparr>d_nonoverlapping_edge_boxes := tbl2\<rparr>)))"

text \<open>
  The constructor. The two level members have no initialiser; the model starts them at 0,
  and every path below assigns both before anything reads them. A null \<open>hierarchy\<close> fails the
  assertion of a checked build and is dereferenced on every path otherwise.
\<close>

definition HierarchyEdgeDataOpsInteger_new ::
    "bool \<Rightarrow> (box \<Rightarrow> nat \<Rightarrow> box) \<Rightarrow> PatchEdgeDataOpsInteger \<Rightarrow> PatchHierarchy option
      \<Rightarrow> int \<Rightarrow> int \<Rightarrow> error + HierarchyEdgeDataOpsInteger" where
  "HierarchyEdgeDataOpsInteger_new checked toEdgeBox patch_ops hierarchy coarsest_level finest_level =
     (case hierarchy of
        None \<Rightarrow> Inl (null_access checked)
      | Some h \<Rightarrow>
          let ops = \<lparr>d_hierarchy = hierarchy, d_coarsest_level = 0, d_finest_level = 0,
                     d_nonoverlapping_edge_boxes = replicate MAX_DIM_VAL [],
                     d_patch_ops = patch_ops\<rparr>
          in if coarsest_level < 0 \<or> finest_level < 0 then
               (if getNumberOfLevels h = 0
                then Inr (ops\<lparr>d_coarsest_level := coarsest_level, d_finest_level := finest_level\<rparr>)
                else resetLevels checked toEdgeBox ops 0 (getFinestLevelNumber h))
             else resetLevels checked toEdgeBox ops coarsest_level finest_level)"

definition setPatchHierarchy ::
    "bool \<Rightarrow> HierarchyEdgeDataOpsInteger \<Rightarrow> PatchHierarchy option
      \<Rightarrow> error + HierarchyEdgeDataOpsInteger" where
  "setPatchHierarchy checked ops hierarchy =
     (if checked \<and> hierarchy = None then Inl AssertionFailed
      else Inr (ops\<lparr>d_hierarchy := hierarchy\<rparr>))"

definition getPatchHierarchy :: "HierarchyEdgeDataOpsInteger \<Rightarrow> PatchHierarchy option" where
  "getPatchHierarchy ops = d_hierarchy ops"

subsection \<open>The driving pattern of the operations\<close>

text \<open>
  Every operation opens with the same two assertions,
  \<^verbatim>\<open>TBOX_ASSERT(d_hierarchy)\<close> and
  \<^verbatim>\<open>TBOX_ASSERT((d_coarsest_level >= 0) && (d_finest_level >= d_coarsest_level) && (d_finest_level <= d_hierarchy->getFinestLevelNumber()))\<close>.
  \<open>bound ops\<close> is their conjunction.
\<close>

definition bound :: "HierarchyEdgeDataOpsInteger \<Rightarrow> bool" where
  "bound ops =
     (case d_hierarchy ops of
        None \<Rightarrow> False
      | Some h \<Rightarrow> levels_valid h (d_coarsest_level ops) (d_finest_level ops))"

text \<open>
  The two nested loops
  \<^verbatim>\<open>for (ln = d_coarsest_level; ln <= d_finest_level; ++ln) { level = d_hierarchy->getPatchLevel(ln); for (ip = level->begin(); ip != level->end(); ++ip) ... }\<close>
  with the loop body as a parameter.
\<close>

definition for_each_patch ::
    "HierarchyEdgeDataOpsInteger \<Rightarrow> (int \<Rightarrow> Patch \<Rightarrow> 'a \<Rightarrow> 'a outcome) \<Rightarrow> 'a \<Rightarrow> 'a outcome" where
  "for_each_patch ops body acc0 =
     for_each (\<lambda>ln acc.
         case d_hierarchy ops of
           None \<Rightarrow> ([], Inl UndefinedBehaviour)
         | Some h \<Rightarrow>
             (case getPatchLevel h ln of
                None \<Rightarrow> ([], Inl UndefinedBehaviour)
              | Some level \<Rightarrow> for_each (body ln) (local_patches level) acc))
       [d_coarsest_level ops..d_finest_level ops] acc0"

text \<open>\<^verbatim>\<open>hier::Box box = (interior_only ? p->getBox() : d->getGhostBox());\<close>\<close>

definition region :: "bool \<Rightarrow> Patch \<Rightarrow> EdgeData \<Rightarrow> box" where
  "region interior_only p d = (if interior_only then getBox p else getGhostBox d)"

text \<open>
  The body that the data-manipulation operations share: resolve the destination id and the
  source ids on the patch, assert that none is null, compute the region from the destination
  array and call the single-patch operator.
\<close>

definition call_patch_op ::
    "bool \<Rightarrow> bool \<Rightarrow> int \<Rightarrow> int list \<Rightarrow> (box \<Rightarrow> patch_call) \<Rightarrow> int \<Rightarrow> Patch \<Rightarrow> unit
      \<Rightarrow> unit outcome" where
  "call_patch_op checked interior_only dst_id src_ids call ln p u =
     (case getPatchData p dst_id of
        None \<Rightarrow> ([], Inl (null_access checked))
      | Some d \<Rightarrow>
          if list_ex (\<lambda>i. getPatchData p i = None) src_ids then ([], Inl (null_access checked))
          else ([PatchOp ln p (call (region interior_only p d))], Inr ()))"

definition patch_loop_op ::
    "bool \<Rightarrow> HierarchyEdgeDataOpsInteger \<Rightarrow> bool \<Rightarrow> int \<Rightarrow> int list \<Rightarrow> (box \<Rightarrow> patch_call)
      \<Rightarrow> unit outcome" where
  "patch_loop_op checked ops interior_only dst_id src_ids call =
     (if checked \<and> \<not> bound ops then ([], Inl AssertionFailed)
      else for_each_patch ops (call_patch_op checked interior_only dst_id src_ids call) ())"

subsection \<open>Basic generic operations\<close>

text \<open>
  \<^verbatim>\<open>numberOfEntries(data_id, interior_only)\<close>. \<^verbatim>\<open>entries\<close> is a \<^verbatim>\<open>size_t\<close>. With
  \<open>interior_only\<close> the entries of the non-overlapping edge boxes are summed over the levels
  of the range, the patches \<open>il < npatches\<close>, and the axes; otherwise the single-patch count
  over the ghost box is summed over the local patches and reduced.
\<close>

definition numberOfEntries_level ::
    "bool \<Rightarrow> HierarchyEdgeDataOpsInteger \<Rightarrow> PatchHierarchy \<Rightarrow> int \<Rightarrow> 64 word
      \<Rightarrow> error + 64 word" where
  "numberOfEntries_level checked ops h ln entries0 =
     (case getPatchLevel h ln of
        None \<Rightarrow> Inl UndefinedBehaviour
      | Some level \<Rightarrow>
          let npatches = getNumberOfPatches level;
              dimVal = getDim h;
              tbl = d_nonoverlapping_edge_boxes ops
          in case (if checked then
                     fold_err (\<lambda>nd u.
                         case edge_boxes_at tbl nd ln of
                           None \<Rightarrow> Inl UndefinedBehaviour
                         | Some v \<Rightarrow> if npatches = int (length v) then Inr () else Inl AssertionFailed)
                       [0..<dimVal] ()
                   else Inr ()) of
               Inl e \<Rightarrow> Inl e
             | Inr u \<Rightarrow>
                 fold_err (\<lambda>il. fold_err (\<lambda>eb entries.
                     case edge_boxes_at tbl eb ln of
                       None \<Rightarrow> Inl UndefinedBehaviour
                     | Some v \<Rightarrow>
                         if il < length v
                         then Inr (foldl (\<lambda>e lb. e + of_nat (box_size lb)) entries (v ! il))
                         else Inl UndefinedBehaviour)
                   [0..<dimVal])
                 [0..<nat npatches] entries0)"

definition numberOfEntries ::
    "bool \<Rightarrow> HierarchyEdgeDataOpsInteger \<Rightarrow> int \<Rightarrow> bool \<Rightarrow> (64 word) outcome" where
  "numberOfEntries checked ops data_id interior_only =
     (if checked \<and> \<not> bound ops then ([], Inl AssertionFailed)
      else case d_hierarchy ops of
        None \<Rightarrow> ([], Inl UndefinedBehaviour)
      | Some h \<Rightarrow>
          let mpi = getMPI h in
          if interior_only then
            (case getPatchDataFactory h data_id of
               None \<Rightarrow> ([], Inl (null_access checked))
             | Some dfact \<Rightarrow>
                 (case fold_err (numberOfEntries_level checked ops h)
                         [d_coarsest_level ops..d_finest_level ops] 0 of
                    Inl e \<Rightarrow> ([], Inl e)
                  | Inr entries \<Rightarrow> ([], Inr (entries * of_int (getDepth dfact)))))
          else
            (case for_each_patch ops (\<lambda>ln p entries.
                     case getPatchData p data_id of
                       None \<Rightarrow> ([], Inl (null_access checked))
                     | Some d \<Rightarrow>
                         ([PatchOp ln p (NumberOfEntries data_id (getGhostBox d))],
                          Inr (entries + patch_numberOfEntries (d_patch_ops ops) d (getGhostBox d))))
                   0 of
               (ev, Inl e) \<Rightarrow> (ev, Inl e)
             | (ev, Inr entries) \<Rightarrow>
                 if getSize mpi > 1
                 then (ev @ [AllreduceULong MPI_SUM entries],
                       Inr (Allreduce_ulong mpi MPI_SUM entries))
                 else (ev, Inr entries)))"

definition copyData ::
    "bool \<Rightarrow> HierarchyEdgeDataOpsInteger \<Rightarrow> int \<Rightarrow> int \<Rightarrow> bool \<Rightarrow> unit outcome" where
  "copyData checked ops dst_id src_id interior_only =
     patch_loop_op checked ops interior_only dst_id [src_id] (CopyData dst_id src_id)"

text \<open>
  \<^verbatim>\<open>swapData(data1_id, data2_id)\<close>. In a checked build the two factories are fetched through
  \<^verbatim>\<open>d_hierarchy\<close> and compared before the two assertions that every operation opens with;
  the loop hands the patch and the two ids to the single-patch operator.
\<close>

definition swapData_validate :: "HierarchyEdgeDataOpsInteger \<Rightarrow> int \<Rightarrow> int \<Rightarrow> error option" where
  "swapData_validate ops data1_id data2_id =
     (case d_hierarchy ops of
        None \<Rightarrow> Some UndefinedBehaviour
      | Some h \<Rightarrow>
          (case getPatchDataFactory h data1_id of
             None \<Rightarrow> Some AssertionFailed
           | Some d1fact \<Rightarrow>
               (case getPatchDataFactory h data2_id of
                  None \<Rightarrow> Some AssertionFailed
                | Some d2fact \<Rightarrow>
                    if getDepth d1fact \<noteq> getDepth d2fact then Some AssertionFailed
                    else if getGhostCellWidth d1fact \<noteq> getGhostCellWidth d2fact
                    then Some AssertionFailed
                    else None)))"

definition swapData ::
    "bool \<Rightarrow> HierarchyEdgeDataOpsInteger \<Rightarrow> int \<Rightarrow> int \<Rightarrow> unit outcome" where
  "swapData checked ops data1_id data2_id =
     (case (if checked then swapData_validate ops data1_id data2_id else None) of
        Some e \<Rightarrow> ([], Inl e)
      | None \<Rightarrow>
          if checked \<and> \<not> bound ops then ([], Inl AssertionFailed)
          else for_each_patch ops
                 (\<lambda>ln p u. ([PatchOp ln p (SwapData data1_id data2_id)], Inr ())) ())"

text \<open>
  \<^verbatim>\<open>printData(data_id, s, interior_only)\<close> writes two header lines, and for each level a line
  with its number before the patches of the level are printed.
\<close>

definition printData ::
    "bool \<Rightarrow> HierarchyEdgeDataOpsInteger \<Rightarrow> int \<Rightarrow> bool \<Rightarrow> unit outcome" where
  "printData checked ops data_id interior_only =
     (if checked \<and> \<not> bound ops then ([], Inl AssertionFailed)
      else
        case for_each (\<lambda>ln u.
                 case d_hierarchy ops of
                   None \<Rightarrow> ([StreamOut (LevelNumber ln)], Inl UndefinedBehaviour)
                 | Some h \<Rightarrow>
                     (case getPatchLevel h ln of
                        None \<Rightarrow> ([StreamOut (LevelNumber ln)], Inl UndefinedBehaviour)
                      | Some level \<Rightarrow>
                          (case for_each
                                  (call_patch_op checked interior_only data_id []
                                     (PrintData data_id) ln)
                                  (local_patches level) u of
                             (ev, r) \<Rightarrow> (StreamOut (LevelNumber ln) # ev, r))))
               [d_coarsest_level ops..d_finest_level ops] () of
          (ev, r) \<Rightarrow> (StreamOut (DescriptorId data_id) # StreamOut (FactoryName data_id) # ev, r))"

definition setToScalar ::
    "bool \<Rightarrow> HierarchyEdgeDataOpsInteger \<Rightarrow> int \<Rightarrow> int \<Rightarrow> bool \<Rightarrow> unit outcome" where
  "setToScalar checked ops data_id alpha interior_only =
     patch_loop_op checked ops interior_only data_id [] (SetToScalar data_id alpha)"

subsection \<open>Basic generic arithmetic operations\<close>

text \<open>
  The operations \<open>divide\<close>, \<open>abs\<close>, \<open>min\<close> and \<open>max\<close> of the class carry the suffix
  \<open>_hier\<close>, their names being taken in HOL.
\<close>

definition scale ::
    "bool \<Rightarrow> HierarchyEdgeDataOpsInteger \<Rightarrow> int \<Rightarrow> int \<Rightarrow> int \<Rightarrow> bool \<Rightarrow> unit outcome" where
  "scale checked ops dst_id alpha src_id interior_only =
     patch_loop_op checked ops interior_only dst_id [src_id] (Scale dst_id alpha src_id)"

definition addScalar ::
    "bool \<Rightarrow> HierarchyEdgeDataOpsInteger \<Rightarrow> int \<Rightarrow> int \<Rightarrow> int \<Rightarrow> bool \<Rightarrow> unit outcome" where
  "addScalar checked ops dst_id src_id alpha interior_only =
     patch_loop_op checked ops interior_only dst_id [src_id] (AddScalar dst_id src_id alpha)"

definition add ::
    "bool \<Rightarrow> HierarchyEdgeDataOpsInteger \<Rightarrow> int \<Rightarrow> int \<Rightarrow> int \<Rightarrow> bool \<Rightarrow> unit outcome" where
  "add checked ops dst_id src1_id src2_id interior_only =
     patch_loop_op checked ops interior_only dst_id [src1_id, src2_id] (Add dst_id src1_id src2_id)"

definition subtract ::
    "bool \<Rightarrow> HierarchyEdgeDataOpsInteger \<Rightarrow> int \<Rightarrow> int \<Rightarrow> int \<Rightarrow> bool \<Rightarrow> unit outcome" where
  "subtract checked ops dst_id src1_id src2_id interior_only =
     patch_loop_op checked ops interior_only dst_id [src1_id, src2_id]
       (Subtract dst_id src1_id src2_id)"

definition multiply ::
    "bool \<Rightarrow> HierarchyEdgeDataOpsInteger \<Rightarrow> int \<Rightarrow> int \<Rightarrow> int \<Rightarrow> bool \<Rightarrow> unit outcome" where
  "multiply checked ops dst_id src1_id src2_id interior_only =
     patch_loop_op checked ops interior_only dst_id [src1_id, src2_id]
       (Multiply dst_id src1_id src2_id)"

definition divide_hier ::
    "bool \<Rightarrow> HierarchyEdgeDataOpsInteger \<Rightarrow> int \<Rightarrow> int \<Rightarrow> int \<Rightarrow> bool \<Rightarrow> unit outcome" where
  "divide_hier checked ops dst_id src1_id src2_id interior_only =
     patch_loop_op checked ops interior_only dst_id [src1_id, src2_id]
       (Divide dst_id src1_id src2_id)"

definition reciprocal ::
    "bool \<Rightarrow> HierarchyEdgeDataOpsInteger \<Rightarrow> int \<Rightarrow> int \<Rightarrow> bool \<Rightarrow> unit outcome" where
  "reciprocal checked ops dst_id src_id interior_only =
     patch_loop_op checked ops interior_only dst_id [src_id] (Reciprocal dst_id src_id)"

definition linearSum ::
    "bool \<Rightarrow> HierarchyEdgeDataOpsInteger \<Rightarrow> int \<Rightarrow> int \<Rightarrow> int \<Rightarrow> int \<Rightarrow> int \<Rightarrow> bool
      \<Rightarrow> unit outcome" where
  "linearSum checked ops dst_id alpha src1_id beta src2_id interior_only =
     patch_loop_op checked ops interior_only dst_id [src1_id, src2_id]
       (LinearSum dst_id alpha src1_id beta src2_id)"

definition axpy ::
    "bool \<Rightarrow> HierarchyEdgeDataOpsInteger \<Rightarrow> int \<Rightarrow> int \<Rightarrow> int \<Rightarrow> int \<Rightarrow> bool \<Rightarrow> unit outcome" where
  "axpy checked ops dst_id alpha src1_id src2_id interior_only =
     patch_loop_op checked ops interior_only dst_id [src1_id, src2_id]
       (Axpy dst_id alpha src1_id src2_id)"

definition axmy ::
    "bool \<Rightarrow> HierarchyEdgeDataOpsInteger \<Rightarrow> int \<Rightarrow> int \<Rightarrow> int \<Rightarrow> int \<Rightarrow> bool \<Rightarrow> unit outcome" where
  "axmy checked ops dst_id alpha src1_id src2_id interior_only =
     patch_loop_op checked ops interior_only dst_id [src1_id, src2_id]
       (Axmy dst_id alpha src1_id src2_id)"

definition abs_hier ::
    "bool \<Rightarrow> HierarchyEdgeDataOpsInteger \<Rightarrow> int \<Rightarrow> int \<Rightarrow> bool \<Rightarrow> unit outcome" where
  "abs_hier checked ops dst_id src_id interior_only =
     patch_loop_op checked ops interior_only dst_id [src_id] (Abs dst_id src_id)"

text \<open>
  \<^verbatim>\<open>min(data_id, interior_only)\<close> and \<^verbatim>\<open>max(data_id, interior_only)\<close>: the accumulator
  starts at \<^verbatim>\<open>getMax()\<close>, respectively \<^verbatim>\<open>-(getMax())\<close>, is combined with the single-patch
  result of every local patch, and is reduced when the process count exceeds 1.
\<close>

definition min_hier ::
    "bool \<Rightarrow> HierarchyEdgeDataOpsInteger \<Rightarrow> int \<Rightarrow> bool \<Rightarrow> int outcome" where
  "min_hier checked ops data_id interior_only =
     (if checked \<and> \<not> bound ops then ([], Inl AssertionFailed)
      else case d_hierarchy ops of
        None \<Rightarrow> ([], Inl UndefinedBehaviour)
      | Some h \<Rightarrow>
          let mpi = getMPI h in
          (case for_each_patch ops (\<lambda>ln p minval.
                   case getPatchData p data_id of
                     None \<Rightarrow> ([], Inl (null_access checked))
                   | Some d \<Rightarrow>
                       let box = region interior_only p d
                       in ([PatchOp ln p (PatchMin data_id box)],
                           Inr (min minval (patch_min (d_patch_ops ops) d box))))
                 getMax of
             (ev, Inl e) \<Rightarrow> (ev, Inl e)
           | (ev, Inr minval) \<Rightarrow>
               if getSize mpi > 1
               then (ev @ [AllreduceInt MPI_MIN minval], Inr (Allreduce_int mpi MPI_MIN minval))
               else (ev, Inr minval)))"

definition max_hier ::
    "bool \<Rightarrow> HierarchyEdgeDataOpsInteger \<Rightarrow> int \<Rightarrow> bool \<Rightarrow> int outcome" where
  "max_hier checked ops data_id interior_only =
     (if checked \<and> \<not> bound ops then ([], Inl AssertionFailed)
      else case d_hierarchy ops of
        None \<Rightarrow> ([], Inl UndefinedBehaviour)
      | Some h \<Rightarrow>
          let mpi = getMPI h in
          (case for_each_patch ops (\<lambda>ln p maxval.
                   case getPatchData p data_id of
                     None \<Rightarrow> ([], Inl (null_access checked))
                   | Some d \<Rightarrow>
                       let box = region interior_only p d
                       in ([PatchOp ln p (PatchMax data_id box)],
                           Inr (max maxval (patch_max (d_patch_ops ops) d box))))
                 (- getMax) of
             (ev, Inl e) \<Rightarrow> (ev, Inl e)
           | (ev, Inr maxval) \<Rightarrow>
               if getSize mpi > 1
               then (ev @ [AllreduceInt MPI_MAX maxval], Inr (Allreduce_int mpi MPI_MAX maxval))
               else (ev, Inr maxval)))"

definition setRandomValues ::
    "bool \<Rightarrow> HierarchyEdgeDataOpsInteger \<Rightarrow> int \<Rightarrow> int \<Rightarrow> int \<Rightarrow> bool \<Rightarrow> unit outcome" where
  "setRandomValues checked ops data_id width low interior_only =
     patch_loop_op checked ops interior_only data_id [] (SetRandomValues data_id width low)"

section \<open>Vocabulary of the properties\<close>

text \<open>
  The patches an operation visits: the locally owned patches of the levels of the range, in
  the order of the two loops, each with its level number.
\<close>

definition visited_patches :: "HierarchyEdgeDataOpsInteger \<Rightarrow> (int \<times> Patch) list" where
  "visited_patches ops =
     (case d_hierarchy ops of
        None \<Rightarrow> []
      | Some h \<Rightarrow>
          concat (map (\<lambda>ln. map (Pair ln) (local_patches (patch_levels h ! nat ln)))
                    [d_coarsest_level ops..d_finest_level ops]))"

text \<open>Every visited patch resolves each of the ids to an array.\<close>

definition resolves :: "HierarchyEdgeDataOpsInteger \<Rightarrow> int list \<Rightarrow> bool" where
  "resolves ops ids =
     list_all (\<lambda>(ln, p). list_all (\<lambda>i. getPatchData p i \<noteq> None) ids) (visited_patches ops)"

text \<open>
  The region the spec requires: the patch's own box when \<open>interior_only\<close> holds, the ghost
  box of the destination array otherwise.
\<close>

definition expected_region :: "bool \<Rightarrow> Patch \<Rightarrow> int \<Rightarrow> box" where
  "expected_region interior_only p dst_id =
     (if interior_only then getBox p else getGhostBox (the (getPatchData p dst_id)))"

text \<open>The two ids resolve to factories with equal depth and equal ghost-cell width.\<close>

definition factories_agree :: "PatchHierarchy \<Rightarrow> int \<Rightarrow> int \<Rightarrow> bool" where
  "factories_agree h data1_id data2_id =
     (case (getPatchDataFactory h data1_id, getPatchDataFactory h data2_id) of
        (Some d1fact, Some d2fact) \<Rightarrow>
          getDepth d1fact = getDepth d2fact \<and> getGhostCellWidth d1fact = getGhostCellWidth d2fact
      | _ \<Rightarrow> False)"

text \<open>
  The reductions as the spec words them: the direct sequential accumulation over all visited
  patches, from the operation's starting value with the operation's combination rule, and the
  single-patch calls that the accumulation makes.
\<close>

definition sequential_min :: "HierarchyEdgeDataOpsInteger \<Rightarrow> int \<Rightarrow> bool \<Rightarrow> int" where
  "sequential_min ops data_id interior_only =
     foldl (\<lambda>acc (ln, p). min acc (patch_min (d_patch_ops ops) (the (getPatchData p data_id))
                                      (expected_region interior_only p data_id)))
       getMax (visited_patches ops)"

definition sequential_max :: "HierarchyEdgeDataOpsInteger \<Rightarrow> int \<Rightarrow> bool \<Rightarrow> int" where
  "sequential_max ops data_id interior_only =
     foldl (\<lambda>acc (ln, p). max acc (patch_max (d_patch_ops ops) (the (getPatchData p data_id))
                                      (expected_region interior_only p data_id)))
       (- getMax) (visited_patches ops)"

definition sequential_entries :: "HierarchyEdgeDataOpsInteger \<Rightarrow> int \<Rightarrow> 64 word" where
  "sequential_entries ops data_id =
     foldl (\<lambda>acc (ln, p). acc + patch_numberOfEntries (d_patch_ops ops) (the (getPatchData p data_id))
                                   (expected_region False p data_id))
       0 (visited_patches ops)"

definition reduction_calls ::
    "HierarchyEdgeDataOpsInteger \<Rightarrow> (box \<Rightarrow> patch_call) \<Rightarrow> int \<Rightarrow> bool \<Rightarrow> event list" where
  "reduction_calls ops call data_id interior_only =
     map (\<lambda>(ln, p). PatchOp ln p (call (expected_region interior_only p data_id)))
       (visited_patches ops)"

text \<open>The collective reductions among the calls of an operation.\<close>

fun is_collective :: "event \<Rightarrow> bool" where
  "is_collective (AllreduceInt op v) = True"
| "is_collective (AllreduceULong op v) = True"
| "is_collective e = False"

text \<open>
  The non-overlapping edge boxes that \<^verbatim>\<open>resetLevels\<close> computes for axis \<open>nd\<close> of level
  \<open>ln\<close>: the decomposition of the level's boxes converted to edge boxes.
\<close>

definition level_edge_boxes ::
    "(box \<Rightarrow> nat \<Rightarrow> box) \<Rightarrow> PatchHierarchy \<Rightarrow> nat \<Rightarrow> int \<Rightarrow> box list list" where
  "level_edge_boxes toEdgeBox h nd ln =
     makeNonOverlappingBoxContainers
       (map (\<lambda>i. toEdgeBox i nd) (getBoxes (patch_levels h ! nat ln)))"

text \<open>No two sets of the list share an element.\<close>

fun disjoint_sets :: "'a set list \<Rightarrow> bool" where
  "disjoint_sets [] = True"
| "disjoint_sets (A # As) = ((\<forall>B\<in>set As. A \<inter> B = {}) \<and> disjoint_sets As)"

text \<open>
  The spatial entities that the interior count adds up: the sizes of the boxes of
  \<^verbatim>\<open>d_nonoverlapping_edge_boxes[eb][ln][il]\<close>, summed over the levels of the range, the
  patches of the level, the axes and the boxes of the container.
\<close>

definition level_entities :: "HierarchyEdgeDataOpsInteger \<Rightarrow> PatchHierarchy \<Rightarrow> int \<Rightarrow> nat" where
  "level_entities ops h ln =
     sum_list (map (\<lambda>il.
         sum_list (map (\<lambda>eb.
             sum_list (map box_size (d_nonoverlapping_edge_boxes ops ! eb ! nat ln ! il)))
           [0..<getDim h]))
       [0..<nat (getNumberOfPatches (patch_levels h ! nat ln))])"

definition spatial_entities :: "HierarchyEdgeDataOpsInteger \<Rightarrow> nat" where
  "spatial_entities ops =
     (case d_hierarchy ops of
        None \<Rightarrow> 0
      | Some h \<Rightarrow>
          sum_list (map (level_entities ops h) [d_coarsest_level ops..d_finest_level ops]))"

text \<open>
  The table holds, for every level of the range and every axis, one container per patch of
  the level: what the assertion inside the loop of \<^verbatim>\<open>numberOfEntries\<close> checks.
\<close>

definition decomposition_sized :: "HierarchyEdgeDataOpsInteger \<Rightarrow> bool" where
  "decomposition_sized ops =
     (case d_hierarchy ops of
        None \<Rightarrow> False
      | Some h \<Rightarrow>
          list_all (\<lambda>ln.
              list_all (\<lambda>nd.
                  case edge_boxes_at (d_nonoverlapping_edge_boxes ops) nd ln of
                    None \<Rightarrow> False
                  | Some v \<Rightarrow> getNumberOfPatches (patch_levels h ! nat ln) = int (length v))
                [0..<getDim h])
            [d_coarsest_level ops..d_finest_level ops])"

text \<open>
  The distinct edge entities of the levels \<open>coarsest_level\<close> to \<open>finest_level\<close>: for every
  level and every axis, the number of index points that lie in the edge box of some box of the
  level. A point that lies in the edge boxes of two patches is one element of the union.
\<close>

definition distinct_edges :: "(box \<Rightarrow> nat \<Rightarrow> box) \<Rightarrow> PatchHierarchy \<Rightarrow> int \<Rightarrow> int \<Rightarrow> nat" where
  "distinct_edges toEdgeBox h coarsest_level finest_level =
     sum_list (map (\<lambda>ln.
         sum_list (map (\<lambda>nd.
             card (\<Union>b\<in>set (getBoxes (patch_levels h ! nat ln)). box_points (toEdgeBox b nd)))
           [0..<getDim h]))
       [coarsest_level..finest_level])"

text \<open>The count that the raw edge boxes of the patches would give, box by box.\<close>

definition raw_edges :: "(box \<Rightarrow> nat \<Rightarrow> box) \<Rightarrow> PatchHierarchy \<Rightarrow> int \<Rightarrow> int \<Rightarrow> nat" where
  "raw_edges toEdgeBox h coarsest_level finest_level =
     sum_list (map (\<lambda>ln.
         sum_list (map (\<lambda>nd.
             sum_list (map (\<lambda>b. box_size (toEdgeBox b nd)) (getBoxes (patch_levels h ! nat ln))))
           [0..<getDim h]))
       [coarsest_level..finest_level])"

text \<open>
  Modelled from the spec: the collective all-reduce is "sum for additive quantities, min/max
  for extrema" over the contributions of all processes, and hands that one value to every
  process. \<open>reduce_all op vs\<close> is the reduction of the contributions \<open>vs\<close>, one per process.
\<close>

definition combine :: "mpi_op \<Rightarrow> 'a::{plus,linorder} \<Rightarrow> 'a \<Rightarrow> 'a" where
  "combine op a b = (case op of MPI_SUM \<Rightarrow> a + b | MPI_MIN \<Rightarrow> min a b | MPI_MAX \<Rightarrow> max a b)"

fun reduce_all :: "mpi_op \<Rightarrow> 'a::{plus,linorder,zero} list \<Rightarrow> 'a" where
  "reduce_all op [] = 0"
| "reduce_all op (v # vs) = foldl (combine op) v vs"

text \<open>
  A collective call of an operation is made by the operators of all processes, one operator
  per process. The communicator of each has as many processes as there are operators, and where
  there is more than one process, the all-reduce of a process's contribution answers with the
  reduction of the contributions of all of them.
\<close>

definition allreduce_delivers_int ::
    "HierarchyEdgeDataOpsInteger list \<Rightarrow> mpi_op \<Rightarrow> (HierarchyEdgeDataOpsInteger \<Rightarrow> int) \<Rightarrow> bool" where
  "allreduce_delivers_int procs op contribution =
     list_all (\<lambda>p.
         case d_hierarchy p of
           None \<Rightarrow> False
         | Some h \<Rightarrow>
             getSize (getMPI h) = int (length procs)
             \<and> (1 < length procs \<longrightarrow>
                  Allreduce_int (getMPI h) op (contribution p)
                    = reduce_all op (map contribution procs)))
       procs"

definition allreduce_delivers_ulong ::
    "HierarchyEdgeDataOpsInteger list \<Rightarrow> mpi_op \<Rightarrow> (HierarchyEdgeDataOpsInteger \<Rightarrow> 64 word)
      \<Rightarrow> bool" where
  "allreduce_delivers_ulong procs op contribution =
     list_all (\<lambda>p.
         case d_hierarchy p of
           None \<Rightarrow> False
         | Some h \<Rightarrow>
             getSize (getMPI h) = int (length procs)
             \<and> (1 < length procs \<longrightarrow>
                  Allreduce_ulong (getMPI h) op (contribution p)
                    = reduce_all op (map contribution procs)))
       procs"

text \<open>
  Two operators hold the same decomposition: the same table for the same level range, the
  same dimension, and the same number of patches on every level of the range.
\<close>

definition same_decomposition ::
    "HierarchyEdgeDataOpsInteger \<Rightarrow> HierarchyEdgeDataOpsInteger \<Rightarrow> bool" where
  "same_decomposition a b =
     (case (d_hierarchy a, d_hierarchy b) of
        (Some ha, Some hb) \<Rightarrow>
          d_nonoverlapping_edge_boxes a = d_nonoverlapping_edge_boxes b
          \<and> d_coarsest_level a = d_coarsest_level b \<and> d_finest_level a = d_finest_level b
          \<and> getDim ha = getDim hb
          \<and> list_all (\<lambda>ln. getNumberOfPatches (patch_levels ha ! nat ln)
                              = getNumberOfPatches (patch_levels hb ! nat ln))
               [d_coarsest_level a..d_finest_level a]
      | _ \<Rightarrow> False)"

text \<open>
  Modelled from the spec: every process holds the same description of the levels, the boxes of
  all patches of a level and their number, and the same dimension; the processes differ in the
  patches that they own.
\<close>

definition same_levels :: "PatchHierarchy \<Rightarrow> PatchHierarchy \<Rightarrow> bool" where
  "same_levels ha hb =
     (getDim ha = getDim hb
      \<and> map getBoxes (patch_levels ha) = map getBoxes (patch_levels hb)
      \<and> map getNumberOfPatches (patch_levels ha) = map getNumberOfPatches (patch_levels hb))"

section \<open>An example hierarchy\<close>

text \<open>
  One level of two adjacent unit patches in two dimensions, \<open>[0,0] x [0,0]\<close> and
  \<open>[1,1] x [0,0]\<close>, which share the face between \<open>x = 0\<close> and \<open>x = 1\<close>. Data ids 0 and 1
  are integer edge arrays of every patch (id 0 with one ghost cell); id 2 has a factory of
  another depth; the other ids resolve to nothing. The communicator of \<open>n\<close> processes answers
  a reduction as if the other processes had contributed 1 to a minimum, 9 to a maximum and 4
  to a sum. \<open>example_ops n\<close> is the operator that the constructor builds for the level range
  \<open>[0, 0]\<close>.
\<close>

definition example_patch :: "int \<Rightarrow> Patch" where
  "example_patch x =
     \<lparr>getBox = [(x, x), (0, 0)],
      getPatchData = (\<lambda>i. if i = 0 then Some \<lparr>getGhostBox = [(x - 1, x + 1), (-1, 1)], stored = [x + 5, 3 - x]\<rparr>
                          else if i = 1 then Some \<lparr>getGhostBox = [(x, x), (0, 0)], stored = [7]\<rparr>
                          else None)\<rparr>"

definition example_level :: PatchLevel where
  "example_level =
     \<lparr>getBoxes = [[(0, 0), (0, 0)], [(1, 1), (0, 0)]], getNumberOfPatches = 2,
      local_patches = [example_patch 0, example_patch 1]\<rparr>"

definition example_mpi :: "int \<Rightarrow> SAMRAI_MPI" where
  "example_mpi n =
     \<lparr>getSize = n,
      Allreduce_int = (\<lambda>op v. case op of MPI_MIN \<Rightarrow> min v 1 | MPI_MAX \<Rightarrow> max v 9 | MPI_SUM \<Rightarrow> v + 4),
      Allreduce_ulong = (\<lambda>op v. case op of MPI_SUM \<Rightarrow> v + 4 | _ \<Rightarrow> v)\<rparr>"

definition example_hierarchy :: "int \<Rightarrow> PatchHierarchy" where
  "example_hierarchy n =
     \<lparr>patch_levels = [example_level], getDim = 2,
      getPatchDataFactory = (\<lambda>i. if i = 0 \<or> i = 1 then Some \<lparr>getDepth = 1, getGhostCellWidth = [1, 1]\<rparr>
                                 else if i = 2 then Some \<lparr>getDepth = 2, getGhostCellWidth = [1, 1]\<rparr>
                                 else None),
      getMPI = example_mpi n\<rparr>"

definition example_patch_ops :: PatchEdgeDataOpsInteger where
  "example_patch_ops =
     \<lparr>patch_numberOfEntries = (\<lambda>d b. of_nat (length (stored d))),
      patch_min = (\<lambda>d b. foldr min (stored d) getMax),
      patch_max = (\<lambda>d b. foldr max (stored d) (- getMax))\<rparr>"

definition example_ops :: "int \<Rightarrow> HierarchyEdgeDataOpsInteger" where
  "example_ops n =
     \<lparr>d_hierarchy = Some (example_hierarchy n), d_coarsest_level = 0, d_finest_level = 0,
      d_nonoverlapping_edge_boxes =
        [[[[[(0, 1), (0, 0)]], [[(2, 2), (0, 0)]]]],
         [[[[(0, 0), (0, 1)]], [[(1, 1), (0, 1)]]]],
         []],
      d_patch_ops = example_patch_ops\<rparr>"

text \<open>
  A hierarchy without levels, and the operator that the constructor builds on it from the
  level arguments \<open>-1\<close> and \<open>-1\<close>.
\<close>

definition example_empty_hierarchy :: PatchHierarchy where
  "example_empty_hierarchy = (example_hierarchy 1)\<lparr>patch_levels := []\<rparr>"

definition example_unbound_ops :: HierarchyEdgeDataOpsInteger where
  "example_unbound_ops =
     \<lparr>d_hierarchy = Some example_empty_hierarchy, d_coarsest_level = - 1, d_finest_level = - 1,
      d_nonoverlapping_edge_boxes = [[], [], []],
      d_patch_ops = example_patch_ops\<rparr>"

text \<open>The example level without patches on any process.\<close>

definition example_vacant_ops :: "int \<Rightarrow> HierarchyEdgeDataOpsInteger" where
  "example_vacant_ops n =
     \<lparr>d_hierarchy = Some ((example_hierarchy n)
        \<lparr>patch_levels := [\<lparr>getBoxes = [], getNumberOfPatches = 0, local_patches = []\<rparr>]\<rparr>),
      d_coarsest_level = 0, d_finest_level = 0,
      d_nonoverlapping_edge_boxes = [[[]], [[]], []],
      d_patch_ops = example_patch_ops\<rparr>"

text \<open>
  A second process for the example: it owns one patch, whose array of id 0 stores the values
  1, 9, 5, 5, and its communicator answers as if the other process had contributed 2 to a
  minimum, 6 to a maximum and 4 to a sum, which is what \<open>example_ops 2\<close> contributes.
\<close>

definition example_peer_patch :: Patch where
  "example_peer_patch =
     \<lparr>getBox = [(1, 1), (0, 0)],
      getPatchData = (\<lambda>i. if i = 0 then Some \<lparr>getGhostBox = [(0, 2), (- 1, 1)], stored = [1, 9, 5, 5]\<rparr>
                          else None)\<rparr>"

definition example_peer_hierarchy :: PatchHierarchy where
  "example_peer_hierarchy =
     (example_hierarchy 2)
       \<lparr>patch_levels := [example_level\<lparr>local_patches := [example_peer_patch]\<rparr>],
        getMPI := \<lparr>getSize = 2,
                   Allreduce_int = (\<lambda>op v. case op of MPI_MIN \<Rightarrow> min v 2 | MPI_MAX \<Rightarrow> max v 6
                                            | MPI_SUM \<Rightarrow> v + 4),
                   Allreduce_ulong = (\<lambda>op v. case op of MPI_SUM \<Rightarrow> v + 4 | _ \<Rightarrow> v)\<rparr>\<rparr>"

definition example_peer_ops :: HierarchyEdgeDataOpsInteger where
  "example_peer_ops = (example_ops 2)\<lparr>d_hierarchy := Some example_peer_hierarchy\<rparr>"

section \<open>Properties of DatabaseBox\<close>

lemma empty_loop_characterisation:
  "0 \<le> i \<Longrightarrow> d_dimension b \<le> int (length (d_lo b)) \<Longrightarrow> d_dimension b \<le> int (length (d_hi b)) \<Longrightarrow>
   empty_loop b i = Some (\<exists>k. i \<le> k \<and> k < d_dimension b \<and> d_hi b ! nat k < d_lo b ! nat k)"
proof (induction b i rule: empty_loop.induct)
  case (1 b i)
  show ?case
  proof (cases "i < d_dimension b")
    case False
    then show ?thesis by (subst empty_loop.simps) auto
  next
    case True
    with "1.prems" have rng: "nat i < length (d_hi b)" "nat i < length (d_lo b)" by auto
    show ?thesis
    proof (cases "d_hi b ! nat i < d_lo b ! nat i")
      case hit: True
      with True rng "1.prems"(1) show ?thesis
        by (subst empty_loop.simps) auto
    next
      case miss: False
      have ih: "empty_loop b (i + 1) =
          Some (\<exists>k. i + 1 \<le> k \<and> k < d_dimension b \<and> d_hi b ! nat k < d_lo b ! nat k)"
        using "1.IH" True rng miss "1.prems" by simp
      have "(\<exists>k. i + 1 \<le> k \<and> k < d_dimension b \<and> d_hi b ! nat k < d_lo b ! nat k)
          = (\<exists>k. i \<le> k \<and> k < d_dimension b \<and> d_hi b ! nat k < d_lo b ! nat k)"
      proof
        assume "\<exists>k. i + 1 \<le> k \<and> k < d_dimension b \<and> d_hi b ! nat k < d_lo b ! nat k"
        then obtain k where "i + 1 \<le> k" "k < d_dimension b" "d_hi b ! nat k < d_lo b ! nat k"
          by blast
        then have "i \<le> k \<and> k < d_dimension b \<and> d_hi b ! nat k < d_lo b ! nat k"
          by simp
        then show "\<exists>k. i \<le> k \<and> k < d_dimension b \<and> d_hi b ! nat k < d_lo b ! nat k" ..
      next
        assume "\<exists>k. i \<le> k \<and> k < d_dimension b \<and> d_hi b ! nat k < d_lo b ! nat k"
        then obtain k where k: "i \<le> k" "k < d_dimension b" "d_hi b ! nat k < d_lo b ! nat k"
          by blast
        with miss have "k \<noteq> i" by auto
        with k have "i + 1 \<le> k \<and> k < d_dimension b \<and> d_hi b ! nat k < d_lo b ! nat k"
          by simp
        then show "\<exists>k. i + 1 \<le> k \<and> k < d_dimension b \<and> d_hi b ! nat k < d_lo b ! nat k" ..
      qed
      with ih True rng miss "1.prems"(1) show ?thesis
        by (subst empty_loop.simps) simp
    qed
  qed
qed

lemma DatabaseBox_new_fits:
  assumes "DatabaseBox_new checked dim_val lower upper = Inr b"
  shows "0 \<le> d_dimension b \<and> length (d_lo b) = MAX_DIM_VAL \<and> length (d_hi b) = MAX_DIM_VAL
         \<and> d_dimension b \<le> int (length (d_lo b)) \<and> d_dimension b \<le> int (length (d_hi b))"
  using assms
  by (auto simp: DatabaseBox_new_def split: if_splits option.splits)

lemma setDim_fits:
  assumes "setDim True b dim_val = Inr b'"
    and "length (d_lo b) = MAX_DIM_VAL" and "length (d_hi b) = MAX_DIM_VAL"
  shows "d_dimension b' \<le> int (length (d_lo b')) \<and> d_dimension b' \<le> int (length (d_hi b'))"
  using assms by (auto simp: setDim_def split: if_splits)

text \<open>
  Claim C8. For every DatabaseBox whose dimension does not exceed the capacity of its corner
  arrays (as it does not in a box that the constructor builds), \<^verbatim>\<open>empty()\<close> returns true exactly when the dimension is 0 or some component
  \<open>k\<close> below the dimension has \<open>upper[k] < lower[k]\<close>; the default-constructed box
  (dimension 0) is empty.
\<close>

theorem DatabaseBox_empty_iff:
  assumes "d_dimension b \<le> int (length (d_lo b))" and "d_dimension b \<le> int (length (d_hi b))"
  shows "DatabaseBox_empty b = Some (d_dimension b = 0 \<or>
            (\<exists>k. 0 \<le> k \<and> k < d_dimension b \<and> d_hi b ! nat k < d_lo b ! nat k))
         \<and> DatabaseBox_empty DatabaseBox_default = Some True"
proof -
  have "empty_loop b 0 = Some (\<exists>k. 0 \<le> k \<and> k < d_dimension b \<and> d_hi b ! nat k < d_lo b ! nat k)"
    using assms by (intro empty_loop_characterisation) auto
  then show ?thesis
    by (simp add: DatabaseBox_empty_def DatabaseBox_default_def)
qed

theorem DatabaseBox_empty_iff_witness:
  "DatabaseBox_empty \<lparr>d_dimension = 2, d_lo = [0, 5, 0], d_hi = [3, 4, 0]\<rparr> = Some True
   \<and> DatabaseBox_empty \<lparr>d_dimension = 2, d_lo = [0, 5, 0], d_hi = [3, 7, 0]\<rparr> = Some False
   \<and> DatabaseBox_empty DatabaseBox_default = Some True"
proof -
  let ?b = "\<lparr>d_dimension = 2, d_lo = [0, 5, 0], d_hi = [3, 4, 0]\<rparr>"
  let ?c = "\<lparr>d_dimension = 2, d_lo = [0, 5, 0], d_hi = [3, 7, 0]\<rparr>"
  have e1: "\<exists>k::int. 0 \<le> k \<and> k < 2 \<and> [3, 4, 0::int] ! nat k < [0, 5, 0] ! nat k"
    by (rule exI [of _ 1]) simp
  have e2: "\<not> (\<exists>k::int. 0 \<le> k \<and> k < 2 \<and> [3, 7, 0::int] ! nat k < [0, 5, 0] ! nat k)"
  proof
    assume "\<exists>k::int. 0 \<le> k \<and> k < 2 \<and> [3, 7, 0::int] ! nat k < [0, 5, 0] ! nat k"
    then obtain k :: int where k: "0 \<le> k" "k < 2" "[3, 7, 0::int] ! nat k < [0, 5, 0] ! nat k"
      by blast
    then have "k = 0 \<or> k = 1" by auto
    with k(3) show False by auto
  qed
  from DatabaseBox_empty_iff [of ?b] e1 have "DatabaseBox_empty ?b = Some True" by simp
  moreover from DatabaseBox_empty_iff [of ?c] e2 have "DatabaseBox_empty ?c = Some False" by simp
  moreover from DatabaseBox_empty_iff [of ?b] have "DatabaseBox_empty DatabaseBox_default = Some True" by simp
  ultimately show ?thesis by simp
qed

section \<open>The driving pattern on a bound operator\<close>

lemma for_each_success:
  "(\<And>p acc. p \<in> set ps \<Longrightarrow> body p acc = (E p, Inr (G p acc))) \<Longrightarrow>
   for_each body ps acc = (concat (map E ps), Inr (foldl (\<lambda>a p. G p a) acc ps))"
  by (induction ps arbitrary: acc) auto

lemma concat_map_pairs:
  "concat (map (\<lambda>(ln, p). E ln p) (concat (map (\<lambda>ln. map (Pair ln) (P ln)) lns)))
   = concat (map (\<lambda>ln. concat (map (E ln) (P ln))) lns)"
  by (induction lns) (auto simp: comp_def)

lemma foldl_pairs:
  "foldl (\<lambda>a (ln, p). G ln p a) acc (concat (map (\<lambda>ln. map (Pair ln) (P ln)) lns))
   = foldl (\<lambda>a ln. foldl (\<lambda>a p. G ln p a) a (P ln)) acc lns"
proof (induction lns arbitrary: acc)
  case Nil
  show ?case by simp
next
  case (Cons ln lns)
  have "foldl (\<lambda>a (ln, p). G ln p a) acc (map (Pair ln) (P ln)) = foldl (\<lambda>a p. G ln p a) acc (P ln)"
    by (induction "P ln" arbitrary: acc) (auto simp: foldl_map)
  with Cons show ?case by simp
qed

lemma for_each_patch_success:
  assumes b: "bound ops"
    and body: "\<And>ln p acc. (ln, p) \<in> set (visited_patches ops) \<Longrightarrow> body ln p acc = (E ln p, Inr (G ln p acc))"
  shows "for_each_patch ops body acc0 =
           (concat (map (\<lambda>(ln, p). E ln p) (visited_patches ops)),
            Inr (foldl (\<lambda>a (ln, p). G ln p a) acc0 (visited_patches ops)))"
proof -
  from b obtain h where h: "d_hierarchy ops = Some h"
    and v: "levels_valid h (d_coarsest_level ops) (d_finest_level ops)"
    by (auto simp: bound_def split: option.splits)
  let ?lns = "[d_coarsest_level ops..d_finest_level ops]"
  let ?P = "\<lambda>ln. local_patches (patch_levels h ! nat ln)"
  have vis: "visited_patches ops = concat (map (\<lambda>ln. map (Pair ln) (?P ln)) ?lns)"
    by (simp add: visited_patches_def h)
  have lvl: "getPatchLevel h ln = Some (patch_levels h ! nat ln)" if "ln \<in> set ?lns" for ln
    using that v by (auto simp: getPatchLevel_def levels_valid_def getNumberOfLevels_def getFinestLevelNumber_def)
  have inner: "for_each (body ln) (?P ln) acc =
      (concat (map (E ln) (?P ln)), Inr (foldl (\<lambda>a p. G ln p a) acc (?P ln)))"
    if "ln \<in> set ?lns" for ln acc
  proof (rule for_each_success)
    fix p acc' assume "p \<in> set (?P ln)"
    with that have "(ln, p) \<in> set (visited_patches ops)" by (auto simp: vis)
    then show "body ln p acc' = (E ln p, Inr (G ln p acc'))" by (rule body)
  qed
  have "for_each_patch ops body acc0 =
      (concat (map (\<lambda>ln. concat (map (E ln) (?P ln))) ?lns),
       Inr (foldl (\<lambda>a ln. foldl (\<lambda>a p. G ln p a) a (?P ln)) acc0 ?lns))"
    unfolding for_each_patch_def
    by (rule for_each_success) (simp add: h lvl inner)
  then show ?thesis
    by (simp add: vis concat_map_pairs foldl_pairs)
qed

lemma patch_loop_op_bound:
  assumes b: "bound ops" and r: "resolves ops (dst_id # src_ids)"
  shows "patch_loop_op checked ops interior_only dst_id src_ids call =
           (map (\<lambda>(ln, p). PatchOp ln p (call (expected_region interior_only p dst_id)))
              (visited_patches ops), Inr ())"
proof -
  have body: "call_patch_op checked interior_only dst_id src_ids call ln p acc =
        ([PatchOp ln p (call (expected_region interior_only p dst_id))], Inr ())"
    if "(ln, p) \<in> set (visited_patches ops)" for ln p acc
  proof -
    from r that have d: "getPatchData p dst_id \<noteq> None"
      and s: "\<forall>i\<in>set src_ids. getPatchData p i \<noteq> None"
      by (auto simp: resolves_def list_all_iff)
    from d obtain d' where d': "getPatchData p dst_id = Some d'" by auto
    from s have "\<not> list_ex (\<lambda>i. getPatchData p i = None) src_ids"
      by (auto simp: list_ex_iff)
    with d' show ?thesis
      by (simp add: call_patch_op_def expected_region_def region_def)
  qed
  have "for_each_patch ops (call_patch_op checked interior_only dst_id src_ids call) () =
      (concat (map (\<lambda>(ln, p). [PatchOp ln p (call (expected_region interior_only p dst_id))])
                 (visited_patches ops)),
       Inr (foldl (\<lambda>a (ln, p). ()) () (visited_patches ops)))"
    using b body by (rule for_each_patch_success)
  moreover have "concat (map (\<lambda>(ln, p). [f ln p]) xs) = map (\<lambda>(ln, p). f ln p) xs" for f :: "int \<Rightarrow> Patch \<Rightarrow> event" and xs
    by (induction xs) auto
  ultimately show ?thesis
    using b by (simp add: patch_loop_op_def)
qed

lemma resolves_sublist:
  "resolves ops ids \<Longrightarrow> set ids' \<subseteq> set ids \<Longrightarrow> resolves ops ids'"
  unfolding resolves_def list_all_iff by fast

text \<open>
  Claim C5. For each data-manipulation operation (copyData, setToScalar, scale, add,
  subtract, multiply, divide, reciprocal, linearSum, axpy, axmy, abs, setRandomValues) on a
  bound operator whose ids resolve on every visited patch, the single-patch operator is called
  once for every locally owned patch of every level of the range, in order, and the region it
  receives is the patch's own box when \<open>interior_only\<close> is true and the ghost box of the
  destination array when it is false.
\<close>

theorem region_passed_to_patch_operator:
  assumes b: "bound ops" and r: "resolves ops [dst_id, src1_id, src2_id]"
  shows
    "copyData checked ops dst_id src1_id interior_only =
       (map (\<lambda>(ln, p). PatchOp ln p (CopyData dst_id src1_id (expected_region interior_only p dst_id)))
          (visited_patches ops), Inr ())
     \<and> setToScalar checked ops dst_id alpha interior_only =
       (map (\<lambda>(ln, p). PatchOp ln p (SetToScalar dst_id alpha (expected_region interior_only p dst_id)))
          (visited_patches ops), Inr ())
     \<and> scale checked ops dst_id alpha src1_id interior_only =
       (map (\<lambda>(ln, p). PatchOp ln p (Scale dst_id alpha src1_id (expected_region interior_only p dst_id)))
          (visited_patches ops), Inr ())
     \<and> add checked ops dst_id src1_id src2_id interior_only =
       (map (\<lambda>(ln, p). PatchOp ln p (Add dst_id src1_id src2_id (expected_region interior_only p dst_id)))
          (visited_patches ops), Inr ())
     \<and> subtract checked ops dst_id src1_id src2_id interior_only =
       (map (\<lambda>(ln, p). PatchOp ln p (Subtract dst_id src1_id src2_id (expected_region interior_only p dst_id)))
          (visited_patches ops), Inr ())
     \<and> multiply checked ops dst_id src1_id src2_id interior_only =
       (map (\<lambda>(ln, p). PatchOp ln p (Multiply dst_id src1_id src2_id (expected_region interior_only p dst_id)))
          (visited_patches ops), Inr ())
     \<and> divide_hier checked ops dst_id src1_id src2_id interior_only =
       (map (\<lambda>(ln, p). PatchOp ln p (Divide dst_id src1_id src2_id (expected_region interior_only p dst_id)))
          (visited_patches ops), Inr ())
     \<and> reciprocal checked ops dst_id src1_id interior_only =
       (map (\<lambda>(ln, p). PatchOp ln p (Reciprocal dst_id src1_id (expected_region interior_only p dst_id)))
          (visited_patches ops), Inr ())
     \<and> linearSum checked ops dst_id alpha src1_id beta src2_id interior_only =
       (map (\<lambda>(ln, p). PatchOp ln p
               (LinearSum dst_id alpha src1_id beta src2_id (expected_region interior_only p dst_id)))
          (visited_patches ops), Inr ())
     \<and> axpy checked ops dst_id alpha src1_id src2_id interior_only =
       (map (\<lambda>(ln, p). PatchOp ln p (Axpy dst_id alpha src1_id src2_id (expected_region interior_only p dst_id)))
          (visited_patches ops), Inr ())
     \<and> axmy checked ops dst_id alpha src1_id src2_id interior_only =
       (map (\<lambda>(ln, p). PatchOp ln p (Axmy dst_id alpha src1_id src2_id (expected_region interior_only p dst_id)))
          (visited_patches ops), Inr ())
     \<and> abs_hier checked ops dst_id src1_id interior_only =
       (map (\<lambda>(ln, p). PatchOp ln p (Abs dst_id src1_id (expected_region interior_only p dst_id)))
          (visited_patches ops), Inr ())
     \<and> setRandomValues checked ops dst_id width low interior_only =
       (map (\<lambda>(ln, p). PatchOp ln p (SetRandomValues dst_id width low (expected_region interior_only p dst_id)))
          (visited_patches ops), Inr ())"
proof -
  have r1: "resolves ops [dst_id]" and r2: "resolves ops [dst_id, src1_id]"
    using r by (auto elim: resolves_sublist)
  show ?thesis
    unfolding copyData_def setToScalar_def scale_def add_def subtract_def multiply_def
      divide_hier_def reciprocal_def linearSum_def axpy_def axmy_def abs_hier_def
      setRandomValues_def
    by (simp add: patch_loop_op_bound [OF b r] patch_loop_op_bound [OF b r1]
        patch_loop_op_bound [OF b r2])
qed

lemma example_upto: "[0..0] = [0::int]"
  by (simp add: upto.simps)

lemma example_bound: "bound (example_ops n)"
  by (simp add: bound_def example_ops_def levels_valid_def getFinestLevelNumber_def
      example_hierarchy_def)

lemma example_visited:
  "visited_patches (example_ops n) = [(0, example_patch 0), (0, example_patch 1)]"
  by (simp add: visited_patches_def example_ops_def example_hierarchy_def example_level_def
      example_upto)

lemma example_resolves: "resolves (example_ops n) [0, 1, 1]"
  by (simp add: resolves_def example_visited example_patch_def)

theorem region_passed_to_patch_operator_witness:
  "bound (example_ops 1) \<and> resolves (example_ops 1) [0, 1, 1]
   \<and> copyData True (example_ops 1) 0 1 True =
       ([PatchOp 0 (example_patch 0) (CopyData 0 1 [(0, 0), (0, 0)]),
         PatchOp 0 (example_patch 1) (CopyData 0 1 [(1, 1), (0, 0)])], Inr ())
   \<and> linearSum True (example_ops 1) 0 2 1 3 1 False =
       ([PatchOp 0 (example_patch 0) (LinearSum 0 2 1 3 1 [(- 1, 1), (- 1, 1)]),
         PatchOp 0 (example_patch 1) (LinearSum 0 2 1 3 1 [(0, 2), (- 1, 1)])], Inr ())"
proof -
  have e: "expected_region True (example_patch x) 0 = [(x, x), (0, 0)]"
      "expected_region False (example_patch x) 0 = [(x - 1, x + 1), (- 1, 1)]" for x
    by (simp_all add: expected_region_def example_patch_def)
  from region_passed_to_patch_operator [OF example_bound example_resolves, where checked=True and interior_only=True]
  have "copyData True (example_ops 1) 0 1 True =
       ([PatchOp 0 (example_patch 0) (CopyData 0 1 [(0, 0), (0, 0)]),
         PatchOp 0 (example_patch 1) (CopyData 0 1 [(1, 1), (0, 0)])], Inr ())"
    by (simp add: example_visited e)
  moreover
  from region_passed_to_patch_operator [OF example_bound example_resolves, where checked=True and interior_only=False
      and alpha=2 and beta=3]
  have "linearSum True (example_ops 1) 0 2 1 3 1 False =
       ([PatchOp 0 (example_patch 0) (LinearSum 0 2 1 3 1 [(- 1, 1), (- 1, 1)]),
         PatchOp 0 (example_patch 1) (LinearSum 0 2 1 3 1 [(0, 2), (- 1, 1)])], Inr ())"
    by (simp add: example_visited e)
  ultimately show ?thesis
    using example_bound example_resolves by simp
qed

section \<open>Operations on an operator that is not bound\<close>

lemma patch_loop_op_unbound:
  "\<not> bound ops \<Longrightarrow> patch_loop_op True ops interior_only dst_id src_ids call = ([], Inl AssertionFailed)"
  by (simp add: patch_loop_op_def)

lemma swapData_unbound:
  assumes "\<not> bound ops" and "d_hierarchy ops \<noteq> None"
  shows "swapData True ops data1_id data2_id = ([], Inl AssertionFailed)"
proof -
  from assms(2) obtain h where h: "d_hierarchy ops = Some h" by auto
  have "swapData_validate ops data1_id data2_id = None
      \<or> swapData_validate ops data1_id data2_id = Some AssertionFailed"
    by (simp add: swapData_validate_def h split: option.splits)
  with assms(1) show ?thesis
    by (auto simp: swapData_def)
qed

text \<open>
  Claim C6. Every data-touching operation of a checked build opens with the assertion that
  the operator is bound (the hierarchy is set and
  \<open>0 \<le> coarsest_level \<le> finest_level \<le>\<close> the hierarchy's finest level number); called on
  an operator that is not bound it ends in a failed assertion and has made no call: no
  single-patch operator has run, nothing was printed and nothing was reduced. \<^verbatim>\<open>swapData\<close>
  reads the descriptor through the hierarchy before these assertions, so for it the hierarchy
  has to be set, as it is in every operator that a checked build constructs.
\<close>

theorem unbound_operation_fails_fast:
  assumes "\<not> bound ops"
  shows
    "bound ops = (\<exists>h. d_hierarchy ops = Some h \<and> 0 \<le> d_coarsest_level ops
                   \<and> d_coarsest_level ops \<le> d_finest_level ops
                   \<and> d_finest_level ops \<le> getFinestLevelNumber h)
     \<and> numberOfEntries True ops data_id interior_only = ([], Inl AssertionFailed)
     \<and> copyData True ops dst_id src1_id interior_only = ([], Inl AssertionFailed)
     \<and> (d_hierarchy ops \<noteq> None \<longrightarrow> swapData True ops dst_id src1_id = ([], Inl AssertionFailed))
     \<and> printData True ops data_id interior_only = ([], Inl AssertionFailed)
     \<and> setToScalar True ops dst_id alpha interior_only = ([], Inl AssertionFailed)
     \<and> scale True ops dst_id alpha src1_id interior_only = ([], Inl AssertionFailed)
     \<and> addScalar True ops dst_id src1_id alpha interior_only = ([], Inl AssertionFailed)
     \<and> add True ops dst_id src1_id src2_id interior_only = ([], Inl AssertionFailed)
     \<and> subtract True ops dst_id src1_id src2_id interior_only = ([], Inl AssertionFailed)
     \<and> multiply True ops dst_id src1_id src2_id interior_only = ([], Inl AssertionFailed)
     \<and> divide_hier True ops dst_id src1_id src2_id interior_only = ([], Inl AssertionFailed)
     \<and> reciprocal True ops dst_id src1_id interior_only = ([], Inl AssertionFailed)
     \<and> linearSum True ops dst_id alpha src1_id beta src2_id interior_only = ([], Inl AssertionFailed)
     \<and> axpy True ops dst_id alpha src1_id src2_id interior_only = ([], Inl AssertionFailed)
     \<and> axmy True ops dst_id alpha src1_id src2_id interior_only = ([], Inl AssertionFailed)
     \<and> abs_hier True ops dst_id src1_id interior_only = ([], Inl AssertionFailed)
     \<and> min_hier True ops data_id interior_only = ([], Inl AssertionFailed)
     \<and> max_hier True ops data_id interior_only = ([], Inl AssertionFailed)
     \<and> setRandomValues True ops dst_id width low interior_only = ([], Inl AssertionFailed)"
proof -
  have "bound ops = (\<exists>h. d_hierarchy ops = Some h \<and> 0 \<le> d_coarsest_level ops
                   \<and> d_coarsest_level ops \<le> d_finest_level ops
                   \<and> d_finest_level ops \<le> getFinestLevelNumber h)"
    by (auto simp: bound_def levels_valid_def split: option.splits)
  moreover have "numberOfEntries True ops data_id interior_only = ([], Inl AssertionFailed)"
    and "printData True ops data_id interior_only = ([], Inl AssertionFailed)"
    and "min_hier True ops data_id interior_only = ([], Inl AssertionFailed)"
    and "max_hier True ops data_id interior_only = ([], Inl AssertionFailed)"
    using assms by (simp_all add: numberOfEntries_def printData_def min_hier_def max_hier_def)
  moreover have "d_hierarchy ops \<noteq> None \<longrightarrow> swapData True ops dst_id src1_id = ([], Inl AssertionFailed)"
    using assms by (simp add: swapData_unbound)
  ultimately show ?thesis
    unfolding copyData_def setToScalar_def scale_def addScalar_def add_def subtract_def
      multiply_def divide_hier_def reciprocal_def linearSum_def axpy_def axmy_def abs_hier_def
      setRandomValues_def
    using assms by (simp add: patch_loop_op_unbound)
qed

lemma example_unbound: "\<not> bound example_unbound_ops"
  by (simp add: bound_def example_unbound_ops_def levels_valid_def)

theorem unbound_operation_fails_fast_witness:
  "\<not> bound example_unbound_ops
   \<and> d_hierarchy example_unbound_ops \<noteq> None
   \<and> copyData True example_unbound_ops 0 1 True = ([], Inl AssertionFailed)
   \<and> swapData True example_unbound_ops 0 1 = ([], Inl AssertionFailed)
   \<and> min_hier True example_unbound_ops 0 False = ([], Inl AssertionFailed)"
proof -
  have h: "d_hierarchy example_unbound_ops \<noteq> None"
    by (simp add: example_unbound_ops_def)
  from unbound_operation_fails_fast [OF example_unbound, where dst_id=0 and src1_id=1
      and data_id=0 and interior_only=True] h
  have "copyData True example_unbound_ops 0 1 True = ([], Inl AssertionFailed)"
    and "swapData True example_unbound_ops 0 1 = ([], Inl AssertionFailed)"
    by simp_all
  moreover
  from unbound_operation_fails_fast [OF example_unbound, where data_id=0 and interior_only=False]
  have "min_hier True example_unbound_ops 0 False = ([], Inl AssertionFailed)"
    by simp
  ultimately show ?thesis
    using example_unbound h by simp
qed

lemma resetLevels_keeps_hierarchy:
  "resetLevels checked toEdgeBox ops c f = Inr ops' \<Longrightarrow> d_hierarchy ops' = d_hierarchy ops"
  by (auto simp: resetLevels_def Let_def split: option.splits if_splits sum.splits)

lemma checked_build_hierarchy_set:
  "HierarchyEdgeDataOpsInteger_new True toEdgeBox patch_ops hierarchy c f = Inr ops \<Longrightarrow>
     d_hierarchy ops \<noteq> None"
  "d_hierarchy ops0 \<noteq> None \<Longrightarrow> setPatchHierarchy True ops0 hierarchy = Inr ops \<Longrightarrow>
     d_hierarchy ops \<noteq> None"
  "d_hierarchy ops0 \<noteq> None \<Longrightarrow> resetLevels True toEdgeBox ops0 c f = Inr ops \<Longrightarrow>
     d_hierarchy ops \<noteq> None"
  by (auto simp: HierarchyEdgeDataOpsInteger_new_def setPatchHierarchy_def Let_def null_access_def
      dest!: resetLevels_keeps_hierarchy split: option.splits if_splits)

section \<open>Validation in swapData\<close>

lemma swapData_loop:
  assumes "bound ops"
  shows "for_each_patch ops (\<lambda>ln p u. ([PatchOp ln p (SwapData data1_id data2_id)], Inr ())) () =
           (map (\<lambda>(ln, p). PatchOp ln p (SwapData data1_id data2_id)) (visited_patches ops), Inr ())"
proof -
  have "for_each_patch ops (\<lambda>ln p u. ([PatchOp ln p (SwapData data1_id data2_id)], Inr ())) () =
      (concat (map (\<lambda>(ln, p). [PatchOp ln p (SwapData data1_id data2_id)]) (visited_patches ops)),
       Inr (foldl (\<lambda>a (ln, p). ()) () (visited_patches ops)))"
    using assms by (rule for_each_patch_success) simp
  moreover have "concat (map (\<lambda>(ln, p). [f ln p]) xs) = map (\<lambda>(ln, p). f ln p) xs"
    for f :: "int \<Rightarrow> Patch \<Rightarrow> event" and xs
    by (induction xs) auto
  ultimately show ?thesis by simp
qed

lemma swapData_validate_agree:
  "d_hierarchy ops = Some h \<Longrightarrow>
   swapData_validate ops data1_id data2_id =
     (if factories_agree h data1_id data2_id then None else Some AssertionFailed)"
  by (auto simp: swapData_validate_def factories_agree_def split: option.splits)

text \<open>
  Claim C7. In a checked build \<^verbatim>\<open>swapData\<close> first checks that the two data ids resolve to
  factories of equal depth and equal ghost-cell width: when they do not, it ends in a failed
  assertion without having swapped the data of any patch, and when they do (on a bound
  operator) every visited patch is swapped. In a build without the checks the validation is
  absent: on a bound operator every visited patch is swapped whatever the factories are.
\<close>

theorem swapData_validates_before_swapping:
  assumes "d_hierarchy ops = Some h"
  shows
    "(\<not> factories_agree h data1_id data2_id \<longrightarrow>
        swapData True ops data1_id data2_id = ([], Inl AssertionFailed))
     \<and> (factories_agree h data1_id data2_id \<and> bound ops \<longrightarrow>
        swapData True ops data1_id data2_id =
          (map (\<lambda>(ln, p). PatchOp ln p (SwapData data1_id data2_id)) (visited_patches ops), Inr ()))
     \<and> (bound ops \<longrightarrow>
        swapData False ops data1_id data2_id =
          (map (\<lambda>(ln, p). PatchOp ln p (SwapData data1_id data2_id)) (visited_patches ops), Inr ()))"
  using assms by (simp add: swapData_def swapData_validate_agree swapData_loop)

theorem swapData_validates_before_swapping_witness:
  "d_hierarchy (example_ops 1) = Some (example_hierarchy 1)
   \<and> \<not> factories_agree (example_hierarchy 1) 0 2
   \<and> swapData True (example_ops 1) 0 2 = ([], Inl AssertionFailed)
   \<and> swapData False (example_ops 1) 0 2 =
       ([PatchOp 0 (example_patch 0) (SwapData 0 2), PatchOp 0 (example_patch 1) (SwapData 0 2)], Inr ())
   \<and> factories_agree (example_hierarchy 1) 0 1
   \<and> swapData True (example_ops 1) 0 1 =
       ([PatchOp 0 (example_patch 0) (SwapData 0 1), PatchOp 0 (example_patch 1) (SwapData 0 1)], Inr ())"
proof -
  have h: "d_hierarchy (example_ops 1) = Some (example_hierarchy 1)"
    by (simp add: example_ops_def)
  have a: "\<not> factories_agree (example_hierarchy 1) 0 2" "factories_agree (example_hierarchy 1) 0 1"
    by (simp_all add: factories_agree_def example_hierarchy_def)
  from swapData_validates_before_swapping [OF h, of 0 2] a example_bound [of 1]
  have "swapData True (example_ops 1) 0 2 = ([], Inl AssertionFailed)"
    and "swapData False (example_ops 1) 0 2 =
       ([PatchOp 0 (example_patch 0) (SwapData 0 2), PatchOp 0 (example_patch 1) (SwapData 0 2)], Inr ())"
    by (simp_all add: example_visited)
  moreover
  from swapData_validates_before_swapping [OF h, of 0 1] a example_bound [of 1]
  have "swapData True (example_ops 1) 0 1 =
       ([PatchOp 0 (example_patch 0) (SwapData 0 1), PatchOp 0 (example_patch 1) (SwapData 0 1)], Inr ())"
    by (simp add: example_visited)
  ultimately show ?thesis
    using h a by simp
qed

section \<open>Reductions\<close>

lemma fold_err_success:
  "(\<And>p s. p \<in> set ps \<Longrightarrow> body p s = Inr (G p s)) \<Longrightarrow>
   fold_err body ps s = Inr (foldl (\<lambda>a p. G p a) s ps)"
  by (induction ps arbitrary: s) auto

lemma foldl_add_of_nat:
  "foldl (\<lambda>a p. a + of_nat (F p)) e ps = e + (of_nat (sum_list (map F ps)) :: 64 word)"
  by (induction ps arbitrary: e) (simp_all add: algebra_simps)

lemma edge_boxes_at_SomeD:
  "edge_boxes_at tbl nd ln = Some v \<Longrightarrow> v = tbl ! nd ! nat ln"
  by (auto simp: edge_boxes_at_def split: if_splits)

lemma numberOfEntries_level_sum:
  assumes h: "d_hierarchy ops = Some h" and b: "bound ops" and s: "decomposition_sized ops"
    and ln: "ln \<in> set [d_coarsest_level ops..d_finest_level ops]"
  shows "numberOfEntries_level checked ops h ln e0 = Inr (e0 + of_nat (level_entities ops h ln))"
proof -
  let ?tbl = "d_nonoverlapping_edge_boxes ops"
  let ?np = "getNumberOfPatches (patch_levels h ! nat ln)"
  from b h ln have lvl: "getPatchLevel h ln = Some (patch_levels h ! nat ln)"
    by (auto simp: bound_def levels_valid_def getPatchLevel_def getNumberOfLevels_def
        getFinestLevelNumber_def)
  have at: "edge_boxes_at ?tbl nd ln = Some (?tbl ! nd ! nat ln)
      \<and> ?np = int (length (?tbl ! nd ! nat ln))" if "nd < getDim h" for nd
  proof -
    from s h have "\<forall>ln\<in>set [d_coarsest_level ops..d_finest_level ops]. \<forall>nd\<in>set [0..<getDim h].
        (case edge_boxes_at ?tbl nd ln of
           None \<Rightarrow> False
         | Some v \<Rightarrow> getNumberOfPatches (patch_levels h ! nat ln) = int (length v))"
      by (simp add: decomposition_sized_def list_all_iff)
    with ln that have "case edge_boxes_at ?tbl nd ln of
           None \<Rightarrow> False
         | Some v \<Rightarrow> ?np = int (length v)"
      by simp
    then obtain v where v: "edge_boxes_at ?tbl nd ln = Some v" "?np = int (length v)"
      by (cases "edge_boxes_at ?tbl nd ln") simp_all
    with edge_boxes_at_SomeD [OF v(1)] show ?thesis by simp
  qed
  have check: "fold_err (\<lambda>nd u.
         case edge_boxes_at ?tbl nd ln of
           None \<Rightarrow> Inl UndefinedBehaviour
         | Some v \<Rightarrow> if ?np = int (length v) then Inr () else Inl AssertionFailed)
       [0..<getDim h] () = Inr ()"
    by (subst fold_err_success [where G="\<lambda>nd u. ()"]) (simp_all add: at)
  have axes: "fold_err (\<lambda>eb entries.
         case edge_boxes_at ?tbl eb ln of
           None \<Rightarrow> Inl UndefinedBehaviour
         | Some v \<Rightarrow>
             if il < length v
             then Inr (foldl (\<lambda>e lb. e + of_nat (box_size lb)) entries (v ! il))
             else Inl UndefinedBehaviour)
       [0..<getDim h] e
      = Inr (e + of_nat (sum_list (map (\<lambda>eb. sum_list (map box_size (?tbl ! eb ! nat ln ! il)))
                                     [0..<getDim h])))"
    if il: "il \<in> set [0..<nat ?np]" for il and e :: "64 word"
  proof -
    have "fold_err (\<lambda>eb entries.
         case edge_boxes_at ?tbl eb ln of
           None \<Rightarrow> Inl UndefinedBehaviour
         | Some v \<Rightarrow>
             if il < length v
             then Inr (foldl (\<lambda>e lb. e + of_nat (box_size lb)) entries (v ! il))
             else Inl UndefinedBehaviour)
       [0..<getDim h] e
      = Inr (foldl (\<lambda>a eb. a + of_nat (sum_list (map box_size (?tbl ! eb ! nat ln ! il))))
               e [0..<getDim h])"
    proof (rule fold_err_success)
      fix eb and entries :: "64 word"
      assume "eb \<in> set [0..<getDim h]"
      then have eb: "eb < getDim h" by simp
      from at [OF eb] il have "il < length (?tbl ! eb ! nat ln)" by simp
      with at [OF eb] show "(case edge_boxes_at ?tbl eb ln of
           None \<Rightarrow> Inl UndefinedBehaviour
         | Some v \<Rightarrow>
             if il < length v
             then Inr (foldl (\<lambda>e lb. e + of_nat (box_size lb)) entries (v ! il))
             else Inl UndefinedBehaviour)
        = Inr (entries + of_nat (sum_list (map box_size (?tbl ! eb ! nat ln ! il))))"
        by (simp add: foldl_add_of_nat)
    qed
    then show ?thesis by (simp only: foldl_add_of_nat)
  qed
  have patches: "fold_err (\<lambda>il. fold_err (\<lambda>eb entries.
         case edge_boxes_at ?tbl eb ln of
           None \<Rightarrow> Inl UndefinedBehaviour
         | Some v \<Rightarrow>
             if il < length v
             then Inr (foldl (\<lambda>e lb. e + of_nat (box_size lb)) entries (v ! il))
             else Inl UndefinedBehaviour)
       [0..<getDim h]) [0..<nat ?np] e0
      = Inr (e0 + of_nat (level_entities ops h ln))"
  proof -
    have "fold_err (\<lambda>il. fold_err (\<lambda>eb entries.
         case edge_boxes_at ?tbl eb ln of
           None \<Rightarrow> Inl UndefinedBehaviour
         | Some v \<Rightarrow>
             if il < length v
             then Inr (foldl (\<lambda>e lb. e + of_nat (box_size lb)) entries (v ! il))
             else Inl UndefinedBehaviour)
       [0..<getDim h]) [0..<nat ?np] e0
      = Inr (foldl (\<lambda>a il. a + of_nat (sum_list (map (\<lambda>eb.
                 sum_list (map box_size (?tbl ! eb ! nat ln ! il))) [0..<getDim h])))
               e0 [0..<nat ?np])"
      by (rule fold_err_success) (rule axes)
    then show ?thesis
      by (simp only: foldl_add_of_nat level_entities_def)
  qed
  show ?thesis
    unfolding numberOfEntries_level_def
    by (simp only: lvl option.case Let_def check patches if_cancel sum.case)
qed

lemma numberOfEntries_interior_sum:
  assumes b: "bound ops" and h: "d_hierarchy ops = Some h"
    and f: "getPatchDataFactory h data_id = Some dfact" and s: "decomposition_sized ops"
  shows "numberOfEntries checked ops data_id True =
           ([], Inr (of_nat (spatial_entities ops) * of_int (getDepth dfact)))"
proof -
  have "fold_err (numberOfEntries_level checked ops h) [d_coarsest_level ops..d_finest_level ops] 0
      = Inr (foldl (\<lambda>a ln. a + of_nat (level_entities ops h ln)) 0
               [d_coarsest_level ops..d_finest_level ops])"
    by (rule fold_err_success) (rule numberOfEntries_level_sum [OF h b s])
  then have "fold_err (numberOfEntries_level checked ops h)
      [d_coarsest_level ops..d_finest_level ops] 0 = Inr (of_nat (spatial_entities ops))"
    by (simp add: foldl_add_of_nat spatial_entities_def h)
  with b h f show ?thesis
    by (simp add: numberOfEntries_def)
qed

lemma concat_singletons:
  "concat (map (\<lambda>(ln, p). [f ln p]) xs) = map (\<lambda>(ln, p). f ln p) xs"
  by (induction xs) auto

lemma resolved_data:
  "resolves ops [data_id] \<Longrightarrow> (ln, p) \<in> set (visited_patches ops) \<Longrightarrow>
     \<exists>d. getPatchData p data_id = Some d"
  by (auto simp: resolves_def list_all_iff)

lemma min_hier_bound:
  assumes b: "bound ops" and r: "resolves ops [data_id]" and h: "d_hierarchy ops = Some h"
  shows "min_hier checked ops data_id interior_only =
           (if getSize (getMPI h) > 1
            then (reduction_calls ops (PatchMin data_id) data_id interior_only
                    @ [AllreduceInt MPI_MIN (sequential_min ops data_id interior_only)],
                  Inr (Allreduce_int (getMPI h) MPI_MIN (sequential_min ops data_id interior_only)))
            else (reduction_calls ops (PatchMin data_id) data_id interior_only,
                  Inr (sequential_min ops data_id interior_only)))"
proof -
  let ?body = "\<lambda>ln p minval.
       case getPatchData p data_id of
         None \<Rightarrow> ([], Inl (null_access checked))
       | Some d \<Rightarrow>
           let box = region interior_only p d
           in ([PatchOp ln p (PatchMin data_id box)],
               Inr (min minval (patch_min (d_patch_ops ops) d box)))"
  have "for_each_patch ops ?body getMax =
      (concat (map (\<lambda>(ln, p). [PatchOp ln p (PatchMin data_id (expected_region interior_only p data_id))])
                 (visited_patches ops)),
       Inr (foldl (\<lambda>a (ln, p). min a (patch_min (d_patch_ops ops) (the (getPatchData p data_id))
                                      (expected_region interior_only p data_id)))
              getMax (visited_patches ops)))"
    using b
  proof (rule for_each_patch_success)
    fix ln p acc assume "(ln, p) \<in> set (visited_patches ops)"
    with r obtain d where "getPatchData p data_id = Some d"
      by (blast dest: resolved_data)
    then show "?body ln p acc =
        ([PatchOp ln p (PatchMin data_id (expected_region interior_only p data_id))],
         Inr (min acc (patch_min (d_patch_ops ops) (the (getPatchData p data_id))
                         (expected_region interior_only p data_id))))"
      by (simp add: expected_region_def region_def Let_def)
  qed
  then show ?thesis
    using b h
    by (simp add: min_hier_def Let_def concat_singletons reduction_calls_def sequential_min_def)
qed

lemma max_hier_bound:
  assumes b: "bound ops" and r: "resolves ops [data_id]" and h: "d_hierarchy ops = Some h"
  shows "max_hier checked ops data_id interior_only =
           (if getSize (getMPI h) > 1
            then (reduction_calls ops (PatchMax data_id) data_id interior_only
                    @ [AllreduceInt MPI_MAX (sequential_max ops data_id interior_only)],
                  Inr (Allreduce_int (getMPI h) MPI_MAX (sequential_max ops data_id interior_only)))
            else (reduction_calls ops (PatchMax data_id) data_id interior_only,
                  Inr (sequential_max ops data_id interior_only)))"
proof -
  let ?body = "\<lambda>ln p maxval.
       case getPatchData p data_id of
         None \<Rightarrow> ([], Inl (null_access checked))
       | Some d \<Rightarrow>
           let box = region interior_only p d
           in ([PatchOp ln p (PatchMax data_id box)],
               Inr (max maxval (patch_max (d_patch_ops ops) d box)))"
  have "for_each_patch ops ?body (- getMax) =
      (concat (map (\<lambda>(ln, p). [PatchOp ln p (PatchMax data_id (expected_region interior_only p data_id))])
                 (visited_patches ops)),
       Inr (foldl (\<lambda>a (ln, p). max a (patch_max (d_patch_ops ops) (the (getPatchData p data_id))
                                      (expected_region interior_only p data_id)))
              (- getMax) (visited_patches ops)))"
    using b
  proof (rule for_each_patch_success)
    fix ln p acc assume "(ln, p) \<in> set (visited_patches ops)"
    with r obtain d where "getPatchData p data_id = Some d"
      by (blast dest: resolved_data)
    then show "?body ln p acc =
        ([PatchOp ln p (PatchMax data_id (expected_region interior_only p data_id))],
         Inr (max acc (patch_max (d_patch_ops ops) (the (getPatchData p data_id))
                         (expected_region interior_only p data_id))))"
      by (simp add: expected_region_def region_def Let_def)
  qed
  then show ?thesis
    using b h
    by (simp add: max_hier_def Let_def concat_singletons reduction_calls_def sequential_max_def)
qed

lemma numberOfEntries_ghost_bound:
  assumes b: "bound ops" and r: "resolves ops [data_id]" and h: "d_hierarchy ops = Some h"
  shows "numberOfEntries checked ops data_id False =
           (if getSize (getMPI h) > 1
            then (reduction_calls ops (NumberOfEntries data_id) data_id False
                    @ [AllreduceULong MPI_SUM (sequential_entries ops data_id)],
                  Inr (Allreduce_ulong (getMPI h) MPI_SUM (sequential_entries ops data_id)))
            else (reduction_calls ops (NumberOfEntries data_id) data_id False,
                  Inr (sequential_entries ops data_id)))"
proof -
  let ?body = "\<lambda>ln p entries.
       case getPatchData p data_id of
         None \<Rightarrow> ([], Inl (null_access checked))
       | Some d \<Rightarrow>
           ([PatchOp ln p (NumberOfEntries data_id (getGhostBox d))],
            Inr (entries + patch_numberOfEntries (d_patch_ops ops) d (getGhostBox d)))"
  have "for_each_patch ops ?body 0 =
      (concat (map (\<lambda>(ln, p). [PatchOp ln p (NumberOfEntries data_id (expected_region False p data_id))])
                 (visited_patches ops)),
       Inr (foldl (\<lambda>a (ln, p). a + patch_numberOfEntries (d_patch_ops ops) (the (getPatchData p data_id))
                                      (expected_region False p data_id))
              0 (visited_patches ops)))"
    using b
  proof (rule for_each_patch_success)
    fix ln p acc assume "(ln, p) \<in> set (visited_patches ops)"
    with r obtain d where "getPatchData p data_id = Some d"
      by (blast dest: resolved_data)
    then show "?body ln p acc =
        ([PatchOp ln p (NumberOfEntries data_id (expected_region False p data_id))],
         Inr (acc + patch_numberOfEntries (d_patch_ops ops) (the (getPatchData p data_id))
                         (expected_region False p data_id)))"
      by (simp add: expected_region_def)
  qed
  then show ?thesis
    using b h
    by (simp add: numberOfEntries_def Let_def concat_singletons reduction_calls_def sequential_entries_def)
qed

lemma numberOfEntries_interior_no_calls:
  "fst (numberOfEntries checked ops data_id True) = []"
  by (simp add: numberOfEntries_def Let_def split: option.splits sum.splits)

lemma no_collective_in_reduction_calls:
  "filter is_collective (reduction_calls ops call data_id interior_only) = []"
  by (auto simp: reduction_calls_def filter_empty_conv)

text \<open>
  Claim C3. The accumulator of \<open>min\<close> starts at the largest value of the element type and
  that of \<open>max\<close> at its negation: when the levels of the bound range hold no patch, no entry
  is visited and the accumulated values are these sentinels. With one process they are
  returned as they are; with more processes each is what the process contributes to the one
  reduction, and it is returned whenever the reduction of the sentinel yields the sentinel,
  as it does when no process holds a patch.
\<close>

theorem extrema_of_empty_range:
  assumes "bound ops" and "d_hierarchy ops = Some h" and "visited_patches ops = []"
  shows
    "min_hier checked ops data_id interior_only =
       (if 1 < getSize (getMPI h)
        then ([AllreduceInt MPI_MIN getMax], Inr (Allreduce_int (getMPI h) MPI_MIN getMax))
        else ([], Inr getMax))
     \<and> max_hier checked ops data_id interior_only =
       (if 1 < getSize (getMPI h)
        then ([AllreduceInt MPI_MAX (- getMax)], Inr (Allreduce_int (getMPI h) MPI_MAX (- getMax)))
        else ([], Inr (- getMax)))
     \<and> (getSize (getMPI h) \<le> 1
          \<or> (Allreduce_int (getMPI h) MPI_MIN getMax = getMax
              \<and> Allreduce_int (getMPI h) MPI_MAX (- getMax) = - getMax)
        \<longrightarrow> snd (min_hier checked ops data_id interior_only) = Inr getMax
            \<and> snd (max_hier checked ops data_id interior_only) = Inr (- getMax))
     \<and> getMax = 2 ^ 31 - 1"
proof -
  have r: "resolves ops [data_id]"
    using assms(3) by (simp add: resolves_def)
  have s: "sequential_min ops data_id interior_only = getMax"
    "sequential_max ops data_id interior_only = - getMax"
    "reduction_calls ops call data_id interior_only = []" for call
    using assms(3) by (simp_all add: sequential_min_def sequential_max_def reduction_calls_def)
  have "min_hier checked ops data_id interior_only =
       (if 1 < getSize (getMPI h)
        then ([AllreduceInt MPI_MIN getMax], Inr (Allreduce_int (getMPI h) MPI_MIN getMax))
        else ([], Inr getMax))"
    by (simp add: min_hier_bound [OF assms(1) r assms(2)] s)
  moreover have "max_hier checked ops data_id interior_only =
       (if 1 < getSize (getMPI h)
        then ([AllreduceInt MPI_MAX (- getMax)], Inr (Allreduce_int (getMPI h) MPI_MAX (- getMax)))
        else ([], Inr (- getMax)))"
    by (simp add: max_hier_bound [OF assms(1) r assms(2)] s)
  moreover have "getMax = 2 ^ 31 - 1"
    by (simp add: getMax_def)
  ultimately show ?thesis by auto
qed

lemma example_vacant_bound: "bound (example_vacant_ops n)"
  by (simp add: bound_def example_vacant_ops_def levels_valid_def getFinestLevelNumber_def
      example_hierarchy_def)

lemma example_vacant_visited: "visited_patches (example_vacant_ops n) = []"
  by (simp add: visited_patches_def example_vacant_ops_def example_hierarchy_def example_upto)

theorem extrema_of_empty_range_witness:
  "bound (example_vacant_ops 1) \<and> visited_patches (example_vacant_ops 1) = []
   \<and> min_hier True (example_vacant_ops 1) 0 True = ([], Inr 2147483647)
   \<and> max_hier True (example_vacant_ops 1) 0 True = ([], Inr (- 2147483647))
   \<and> min_hier True (example_vacant_ops 2) 0 True = ([AllreduceInt MPI_MIN 2147483647], Inr 1)"
proof -
  have h: "d_hierarchy (example_vacant_ops n) = Some ((example_hierarchy n)
        \<lparr>patch_levels := [\<lparr>getBoxes = [], getNumberOfPatches = 0, local_patches = []\<rparr>]\<rparr>)" for n
    by (simp add: example_vacant_ops_def)
  from extrema_of_empty_range [OF example_vacant_bound [of 1] h [of 1]
      example_vacant_visited [of 1], where checked=True and data_id=0 and interior_only=True]
  have "min_hier True (example_vacant_ops 1) 0 True = ([], Inr 2147483647)"
    and "max_hier True (example_vacant_ops 1) 0 True = ([], Inr (- 2147483647))"
    by (simp_all add: example_hierarchy_def example_mpi_def getMax_def)
  moreover
  from extrema_of_empty_range [OF example_vacant_bound [of 2] h [of 2]
      example_vacant_visited [of 2], where checked=True and data_id=0 and interior_only=True]
  have "min_hier True (example_vacant_ops 2) 0 True = ([AllreduceInt MPI_MIN 2147483647], Inr 1)"
    by (simp add: example_hierarchy_def example_mpi_def getMax_def)
  ultimately show ?thesis
    using example_vacant_bound [of 1] example_vacant_visited [of 1] by simp
qed

text \<open>
  Claim C4. With one process, \<open>min\<close>, \<open>max\<close> and \<open>numberOfEntries\<close> return exactly the
  direct sequential accumulation over the levels of the bound range. For \<open>min\<close>, \<open>max\<close> and
  \<open>numberOfEntries\<close> over the ghost regions it runs over the locally owned patches, and
  their calls are the single-patch calls of that accumulation: no collective reduction is
  among them. For \<open>numberOfEntries\<close> with \<open>interior_only\<close> it is the sum of the sizes of the
  boxes of the table over levels, patches, axes and boxes, times the depth; this operation
  makes no call at all, so it has no reduction to pass through.
\<close>

theorem single_process_reduction_is_sequential:
  assumes "bound ops" and "d_hierarchy ops = Some h" and "getSize (getMPI h) = 1"
  shows
    "(resolves ops [data_id] \<longrightarrow>
        min_hier checked ops data_id interior_only =
          (reduction_calls ops (PatchMin data_id) data_id interior_only,
           Inr (sequential_min ops data_id interior_only))
        \<and> max_hier checked ops data_id interior_only =
          (reduction_calls ops (PatchMax data_id) data_id interior_only,
           Inr (sequential_max ops data_id interior_only))
        \<and> numberOfEntries checked ops data_id False =
          (reduction_calls ops (NumberOfEntries data_id) data_id False,
           Inr (sequential_entries ops data_id))
        \<and> filter is_collective (fst (min_hier checked ops data_id interior_only)) = []
        \<and> filter is_collective (fst (max_hier checked ops data_id interior_only)) = []
        \<and> filter is_collective (fst (numberOfEntries checked ops data_id False)) = [])
     \<and> (decomposition_sized ops \<and> getPatchDataFactory h data_id = Some dfact \<longrightarrow>
          numberOfEntries checked ops data_id True =
            ([], Inr (of_nat (spatial_entities ops) * of_int (getDepth dfact))))
     \<and> fst (numberOfEntries checked ops data_id True) = []"
  using assms
  by (simp add: min_hier_bound max_hier_bound numberOfEntries_ghost_bound
      no_collective_in_reduction_calls numberOfEntries_interior_no_calls
      numberOfEntries_interior_sum)

lemma example_resolves0: "resolves (example_ops n) [0]"
  using example_resolves by (rule resolves_sublist) simp

lemma example_regions:
  "expected_region True (example_patch x) 0 = [(x, x), (0, 0)]"
  "expected_region False (example_patch x) 0 = [(x - 1, x + 1), (- 1, 1)]"
  by (simp_all add: expected_region_def example_patch_def)

lemma example_fields:
  "d_patch_ops (example_ops n) = example_patch_ops"
  "d_hierarchy (example_ops n) = Some (example_hierarchy n)"
  by (simp_all add: example_ops_def)

lemma example_sequential:
  "sequential_min (example_ops n) 0 interior_only = 2"
  "sequential_max (example_ops n) 0 interior_only = 6"
  "sequential_entries (example_ops n) 0 = 4"
  by (simp_all add: sequential_min_def sequential_max_def sequential_entries_def example_visited
      example_fields example_regions example_patch_def example_patch_ops_def getMax_def)

lemma example_table:
  "d_nonoverlapping_edge_boxes (example_ops n) =
        [[[[[(0, 1), (0, 0)]], [[(2, 2), (0, 0)]]]],
         [[[[(0, 0), (0, 1)]], [[(1, 1), (0, 1)]]]],
         []]"
  "d_coarsest_level (example_ops n) = 0" "d_finest_level (example_ops n) = 0"
  by (simp_all add: example_ops_def)

lemma example_sized: "decomposition_sized (example_ops n)"
  by (simp add: decomposition_sized_def example_fields example_table example_upto
      edge_boxes_at_def example_hierarchy_def example_level_def upt_conv_Cons numeral_2_eq_2)

lemma example_spatial_entities: "spatial_entities (example_ops n) = 7"
  by (simp add: spatial_entities_def level_entities_def example_fields example_table
      example_upto example_hierarchy_def example_level_def upt_conv_Cons numeral_2_eq_2
      box_size_def box_empty_def)

theorem single_process_reduction_is_sequential_witness:
  "bound (example_ops 1) \<and> resolves (example_ops 1) [0]
   \<and> getSize (getMPI (example_hierarchy 1)) = 1
   \<and> decomposition_sized (example_ops 1)
   \<and> min_hier True (example_ops 1) 0 True =
       ([PatchOp 0 (example_patch 0) (PatchMin 0 [(0, 0), (0, 0)]),
         PatchOp 0 (example_patch 1) (PatchMin 0 [(1, 1), (0, 0)])], Inr 2)
   \<and> max_hier True (example_ops 1) 0 False =
       ([PatchOp 0 (example_patch 0) (PatchMax 0 [(- 1, 1), (- 1, 1)]),
         PatchOp 0 (example_patch 1) (PatchMax 0 [(0, 2), (- 1, 1)])], Inr 6)
   \<and> numberOfEntries True (example_ops 1) 0 False =
       ([PatchOp 0 (example_patch 0) (NumberOfEntries 0 [(- 1, 1), (- 1, 1)]),
         PatchOp 0 (example_patch 1) (NumberOfEntries 0 [(0, 2), (- 1, 1)])], Inr 4)
   \<and> numberOfEntries True (example_ops 1) 0 True = ([], Inr 7)
   \<and> numberOfEntries True (example_ops 1) 2 True = ([], Inr 14)"
proof -
  have h: "d_hierarchy (example_ops 1) = Some (example_hierarchy 1)"
    by (simp add: example_ops_def)
  have n: "getSize (getMPI (example_hierarchy 1)) = 1"
    by (simp add: example_hierarchy_def example_mpi_def)
  have f: "getPatchDataFactory (example_hierarchy 1) 0 = Some \<lparr>getDepth = 1, getGhostCellWidth = [1, 1]\<rparr>"
    "getPatchDataFactory (example_hierarchy 1) 2 = Some \<lparr>getDepth = 2, getGhostCellWidth = [1, 1]\<rparr>"
    by (simp_all add: example_hierarchy_def)
  from single_process_reduction_is_sequential [OF example_bound h n, where checked=True and interior_only=True and data_id=0
      and dfact="\<lparr>getDepth = 1, getGhostCellWidth = [1, 1]\<rparr>"]
    example_resolves0 [of 1] example_sized [of 1] f(1)
  have "min_hier True (example_ops 1) 0 True =
       ([PatchOp 0 (example_patch 0) (PatchMin 0 [(0, 0), (0, 0)]),
         PatchOp 0 (example_patch 1) (PatchMin 0 [(1, 1), (0, 0)])], Inr 2)"
    and "numberOfEntries True (example_ops 1) 0 True = ([], Inr 7)"
    by (simp_all add: reduction_calls_def example_visited example_regions example_sequential
        example_spatial_entities)
  moreover
  from single_process_reduction_is_sequential [OF example_bound h n, where checked=True and interior_only=False and data_id=0]
    example_resolves0 [of 1]
  have "max_hier True (example_ops 1) 0 False =
       ([PatchOp 0 (example_patch 0) (PatchMax 0 [(- 1, 1), (- 1, 1)]),
         PatchOp 0 (example_patch 1) (PatchMax 0 [(0, 2), (- 1, 1)])], Inr 6)"
    and "numberOfEntries True (example_ops 1) 0 False =
       ([PatchOp 0 (example_patch 0) (NumberOfEntries 0 [(- 1, 1), (- 1, 1)]),
         PatchOp 0 (example_patch 1) (NumberOfEntries 0 [(0, 2), (- 1, 1)])], Inr 4)"
    by (simp_all add: reduction_calls_def example_visited example_regions example_sequential)
  moreover
  from single_process_reduction_is_sequential [OF example_bound h n, where checked=True and data_id=2
      and dfact="\<lparr>getDepth = 2, getGhostCellWidth = [1, 1]\<rparr>"]
    example_sized [of 1] f(2)
  have "numberOfEntries True (example_ops 1) 2 True = ([], Inr 14)"
    by (simp add: example_spatial_entities)
  ultimately show ?thesis
    using example_bound [of 1] example_resolves0 [of 1] n example_sized [of 1] by simp
qed

text \<open>
  Claim C2, as stated, fails: \<open>numberOfEntries\<close> with \<open>interior_only\<close> succeeds among two
  processes without any collective reduction, and \<open>min\<close> at process count 1 returns its
  local value without one.
\<close>

theorem one_allreduce_per_reduction_counterexample:
  "numberOfEntries True (example_ops 2) 0 True = ([], Inr 7)
   \<and> length (filter is_collective (fst (numberOfEntries True (example_ops 2) 0 True))) = 0
   \<and> snd (min_hier True (example_ops 1) 0 True) = Inr 2
   \<and> length (filter is_collective (fst (min_hier True (example_ops 1) 0 True))) = 0"
proof -
  have b: "bound (example_ops 2)" by (rule example_bound)
  have "numberOfEntries True (example_ops 2) 0 True = ([], Inr 7)"
    using b
    by (simp add: numberOfEntries_def numberOfEntries_level_def edge_boxes_at_def
        example_ops_def example_hierarchy_def example_level_def getPatchLevel_def
        getNumberOfLevels_def example_upto box_size_def box_empty_def
        upt_conv_Cons numeral_2_eq_2)
  moreover have "min_hier True (example_ops 1) 0 True =
       ([PatchOp 0 (example_patch 0) (PatchMin 0 [(0, 0), (0, 0)]),
         PatchOp 0 (example_patch 1) (PatchMin 0 [(1, 1), (0, 0)])], Inr 2)"
    by (simp add: min_hier_bound [OF example_bound example_resolves0 example_fields(2)]
        example_hierarchy_def example_mpi_def reduction_calls_def
        example_visited example_regions example_sequential)
  ultimately show ?thesis by simp
qed

lemma reduce_all_single [simp]: "reduce_all op [v] = v"
  by simp

lemma allreduce_delivers_intD:
  assumes "allreduce_delivers_int procs op contribution" and "p \<in> set procs"
  obtains h where "d_hierarchy p = Some h" "getSize (getMPI h) = int (length procs)"
    "1 < length procs \<Longrightarrow>
       Allreduce_int (getMPI h) op (contribution p) = reduce_all op (map contribution procs)"
  using assms
  by (auto simp: allreduce_delivers_int_def list_all_iff split: option.splits)

lemma allreduce_delivers_ulongD:
  assumes "allreduce_delivers_ulong procs op contribution" and "p \<in> set procs"
  obtains h where "d_hierarchy p = Some h" "getSize (getMPI h) = int (length procs)"
    "1 < length procs \<Longrightarrow>
       Allreduce_ulong (getMPI h) op (contribution p) = reduce_all op (map contribution procs)"
  using assms
  by (auto simp: allreduce_delivers_ulong_def list_all_iff split: option.splits)

lemma single_process_contribution:
  assumes "p \<in> set procs" and "\<not> 1 < length procs"
  shows "reduce_all op (map contribution procs) = contribution p"
proof -
  from assms obtain q where "procs = [q]"
    by (cases procs) (auto simp: not_less)
  with assms(1) show ?thesis by simp
qed

lemma min_hier_collective:
  assumes p: "p \<in> set procs" and b: "bound p" and r: "resolves p [data_id]"
    and d: "allreduce_delivers_int procs MPI_MIN (\<lambda>q. sequential_min q data_id interior_only)"
  shows "snd (min_hier checked p data_id interior_only)
           = Inr (reduce_all MPI_MIN (map (\<lambda>q. sequential_min q data_id interior_only) procs))"
proof -
  from allreduce_delivers_intD [OF d p] obtain h where h: "d_hierarchy p = Some h"
    and n: "getSize (getMPI h) = int (length procs)"
    and a: "1 < length procs \<Longrightarrow>
       Allreduce_int (getMPI h) MPI_MIN (sequential_min p data_id interior_only)
         = reduce_all MPI_MIN (map (\<lambda>q. sequential_min q data_id interior_only) procs)"
    by blast
  show ?thesis
  proof (cases "1 < length procs")
    case True
    with a n show ?thesis by (simp add: min_hier_bound [OF b r h])
  next
    case False
    from single_process_contribution [OF p False, of MPI_MIN "\<lambda>q. sequential_min q data_id interior_only"] n False
    show ?thesis
      by (simp add: min_hier_bound [OF b r h])
  qed
qed

lemma max_hier_collective:
  assumes p: "p \<in> set procs" and b: "bound p" and r: "resolves p [data_id]"
    and d: "allreduce_delivers_int procs MPI_MAX (\<lambda>q. sequential_max q data_id interior_only)"
  shows "snd (max_hier checked p data_id interior_only)
           = Inr (reduce_all MPI_MAX (map (\<lambda>q. sequential_max q data_id interior_only) procs))"
proof -
  from allreduce_delivers_intD [OF d p] obtain h where h: "d_hierarchy p = Some h"
    and n: "getSize (getMPI h) = int (length procs)"
    and a: "1 < length procs \<Longrightarrow>
       Allreduce_int (getMPI h) MPI_MAX (sequential_max p data_id interior_only)
         = reduce_all MPI_MAX (map (\<lambda>q. sequential_max q data_id interior_only) procs)"
    by blast
  show ?thesis
  proof (cases "1 < length procs")
    case True
    with a n show ?thesis by (simp add: max_hier_bound [OF b r h])
  next
    case False
    from single_process_contribution [OF p False, of MPI_MAX "\<lambda>q. sequential_max q data_id interior_only"] n False
    show ?thesis
      by (simp add: max_hier_bound [OF b r h])
  qed
qed

lemma numberOfEntries_ghost_collective:
  assumes p: "p \<in> set procs" and b: "bound p" and r: "resolves p [data_id]"
    and d: "allreduce_delivers_ulong procs MPI_SUM (\<lambda>q. sequential_entries q data_id)"
  shows "snd (numberOfEntries checked p data_id False)
           = Inr (reduce_all MPI_SUM (map (\<lambda>q. sequential_entries q data_id) procs))"
proof -
  from allreduce_delivers_ulongD [OF d p] obtain h where h: "d_hierarchy p = Some h"
    and n: "getSize (getMPI h) = int (length procs)"
    and a: "1 < length procs \<Longrightarrow>
       Allreduce_ulong (getMPI h) MPI_SUM (sequential_entries p data_id)
         = reduce_all MPI_SUM (map (\<lambda>q. sequential_entries q data_id) procs)"
    by blast
  show ?thesis
  proof (cases "1 < length procs")
    case True
    with a n show ?thesis by (simp add: numberOfEntries_ghost_bound [OF b r h])
  next
    case False
    from single_process_contribution [OF p False, of MPI_SUM "\<lambda>q. sequential_entries q data_id"] n False
    show ?thesis
      by (simp add: numberOfEntries_ghost_bound [OF b r h])
  qed
qed

lemma same_decomposition_entities:
  assumes "same_decomposition a b"
  shows "spatial_entities b = spatial_entities a"
proof -
  from assms obtain ha hb where h: "d_hierarchy a = Some ha" "d_hierarchy b = Some hb"
    and t: "d_nonoverlapping_edge_boxes a = d_nonoverlapping_edge_boxes b"
    and c: "d_coarsest_level a = d_coarsest_level b" "d_finest_level a = d_finest_level b"
    and d: "getDim ha = getDim hb"
    and n: "\<forall>ln\<in>set [d_coarsest_level a..d_finest_level a].
        getNumberOfPatches (patch_levels ha ! nat ln) = getNumberOfPatches (patch_levels hb ! nat ln)"
    by (auto simp: same_decomposition_def list_all_iff split: option.splits)
  have "map (level_entities b hb) [d_coarsest_level a..d_finest_level a]
      = map (level_entities a ha) [d_coarsest_level a..d_finest_level a]"
  proof (rule map_cong [OF refl])
    fix ln assume "ln \<in> set [d_coarsest_level a..d_finest_level a]"
    with n have "getNumberOfPatches (patch_levels ha ! nat ln)
        = getNumberOfPatches (patch_levels hb ! nat ln)" by blast
    then show "level_entities b hb ln = level_entities a ha ln"
      by (simp only: level_entities_def t d)
  qed
  then show ?thesis
    by (simp only: spatial_entities_def h option.case c [symmetric])
qed

lemma numberOfEntries_interior_alike:
  assumes ba: "bound a" and bb: "bound b"
    and ha: "d_hierarchy a = Some ha" and hb: "d_hierarchy b = Some hb"
    and sa: "decomposition_sized a" and sb: "decomposition_sized b"
    and same: "same_decomposition a b"
    and fa: "getPatchDataFactory ha data_id = Some dfact"
    and fb: "map_option getDepth (getPatchDataFactory hb data_id) = Some (getDepth dfact)"
  shows "numberOfEntries checked b data_id True = numberOfEntries checked a data_id True"
proof -
  from fb obtain dfact' where f': "getPatchDataFactory hb data_id = Some dfact'"
    "getDepth dfact' = getDepth dfact" by auto
  show ?thesis
    by (simp only: numberOfEntries_interior_sum [OF ba ha fa sa]
        numberOfEntries_interior_sum [OF bb hb f'(1) sb] f'(2)
        same_decomposition_entities [OF same])
qed

lemma same_levels_nth:
  assumes "same_levels ha hb" and "k < length (patch_levels ha)"
  shows "length (patch_levels hb) = length (patch_levels ha)"
    and "getBoxes (patch_levels hb ! k) = getBoxes (patch_levels ha ! k)"
    and "getNumberOfPatches (patch_levels hb ! k) = getNumberOfPatches (patch_levels ha ! k)"
proof -
  from assms(1) have m: "map getBoxes (patch_levels ha) = map getBoxes (patch_levels hb)"
    and n: "map getNumberOfPatches (patch_levels ha) = map getNumberOfPatches (patch_levels hb)"
    by (simp_all add: same_levels_def)
  from m show l: "length (patch_levels hb) = length (patch_levels ha)"
    by (metis length_map)
  from assms(2) l have "map getBoxes (patch_levels ha) ! k = getBoxes (patch_levels ha ! k)"
    "map getBoxes (patch_levels hb) ! k = getBoxes (patch_levels hb ! k)"
    "map getNumberOfPatches (patch_levels ha) ! k = getNumberOfPatches (patch_levels ha ! k)"
    "map getNumberOfPatches (patch_levels hb) ! k = getNumberOfPatches (patch_levels hb ! k)"
    by simp_all
  with m n show "getBoxes (patch_levels hb ! k) = getBoxes (patch_levels ha ! k)"
    and "getNumberOfPatches (patch_levels hb ! k) = getNumberOfPatches (patch_levels ha ! k)"
    by simp_all
qed

lemma same_levels_length:
  assumes "same_levels ha hb"
  shows "length (patch_levels hb) = length (patch_levels ha)"
  using assms by (metis same_levels_def length_map)

lemma resetLevels_level_same:
  assumes "same_levels ha hb"
  shows "resetLevels_level toEdgeBox hb dimVal = resetLevels_level toEdgeBox ha dimVal"
proof (intro ext)
  fix ln tbl
  show "resetLevels_level toEdgeBox hb dimVal ln tbl = resetLevels_level toEdgeBox ha dimVal ln tbl"
  proof (cases "0 \<le> ln \<and> ln < getNumberOfLevels ha")
    case True
    then have k: "nat ln < length (patch_levels ha)"
      unfolding getNumberOfLevels_def by linarith
    from True same_levels_nth(1,2) [OF assms k] show ?thesis
      by (simp add: resetLevels_level_def getPatchLevel_def getNumberOfLevels_def)
  next
    case False
    then have "getPatchLevel ha ln = None"
      by (simp add: getPatchLevel_def)
    moreover from False same_levels_length [OF assms] have "getPatchLevel hb ln = None"
      by (simp add: getPatchLevel_def getNumberOfLevels_def)
    ultimately show ?thesis
      by (simp add: resetLevels_level_def)
  qed
qed

lemma resetLevels_same_decomposition:
  assumes ha: "d_hierarchy a = Some ha" and hb: "d_hierarchy b = Some hb"
    and s: "same_levels ha hb"
    and v: "levels_valid ha coarsest_level finest_level"
    and t: "d_nonoverlapping_edge_boxes b = d_nonoverlapping_edge_boxes a"
    and ra: "resetLevels checked toEdgeBox a coarsest_level finest_level = Inr a'"
    and rb: "resetLevels checked toEdgeBox b coarsest_level finest_level = Inr b'"
  shows "same_decomposition a' b'"
proof -
  from s have d: "getDim hb = getDim ha" by (simp add: same_levels_def)
  from ra ha obtain tbl1 tbl2 where
    a1: "resetLevels_resize (getDim ha) finest_level (d_nonoverlapping_edge_boxes a) = Inr tbl1"
    and a2: "fold_err (resetLevels_level toEdgeBox ha (getDim ha))
        [coarsest_level..finest_level] tbl1 = Inr tbl2"
    and a': "a' = a\<lparr>d_coarsest_level := coarsest_level, d_finest_level := finest_level,
        d_nonoverlapping_edge_boxes := tbl2\<rparr>"
    by (auto simp: resetLevels_def Let_def split: if_splits sum.splits)
  from rb hb a1 a2 have b': "b' = b\<lparr>d_coarsest_level := coarsest_level,
        d_finest_level := finest_level, d_nonoverlapping_edge_boxes := tbl2\<rparr>"
    by (auto simp: resetLevels_def Let_def d t resetLevels_level_same [OF s]
        split: if_splits sum.splits)
  have "getNumberOfPatches (patch_levels ha ! nat ln) = getNumberOfPatches (patch_levels hb ! nat ln)"
    if "ln \<in> set [coarsest_level..finest_level]" for ln
  proof -
    from that v have "nat ln < length (patch_levels ha)"
      by (auto simp: levels_valid_def getFinestLevelNumber_def)
    from same_levels_nth(3) [OF s this] show ?thesis by simp
  qed
  then show ?thesis
    by (simp add: same_decomposition_def a' b' ha hb d list_all_iff)
qed

lemma example_peer_fields:
  "d_hierarchy example_peer_ops = Some example_peer_hierarchy"
  "d_patch_ops example_peer_ops = example_patch_ops"
  "d_coarsest_level example_peer_ops = 0" "d_finest_level example_peer_ops = 0"
  "d_nonoverlapping_edge_boxes example_peer_ops = d_nonoverlapping_edge_boxes (example_ops 2)"
  by (simp_all add: example_peer_ops_def example_ops_def)

lemma example_peer_bound: "bound example_peer_ops"
  by (simp add: bound_def example_peer_fields levels_valid_def getFinestLevelNumber_def
      example_peer_hierarchy_def example_hierarchy_def)

lemma example_peer_visited: "visited_patches example_peer_ops = [(0, example_peer_patch)]"
  by (simp add: visited_patches_def example_peer_fields example_peer_hierarchy_def
      example_hierarchy_def example_level_def example_upto)

lemma example_peer_resolves: "resolves example_peer_ops [0]"
  by (simp add: resolves_def example_peer_visited example_peer_patch_def)

lemma example_peer_sequential:
  "sequential_min example_peer_ops 0 interior_only = 1"
  "sequential_max example_peer_ops 0 interior_only = 9"
  "sequential_entries example_peer_ops 0 = 4"
  by (simp_all add: sequential_min_def sequential_max_def sequential_entries_def
      example_peer_visited example_peer_fields example_peer_patch_def example_patch_ops_def
      getMax_def)

lemma example_peer_sized: "decomposition_sized example_peer_ops"
  by (simp add: decomposition_sized_def example_peer_fields example_table example_upto
      edge_boxes_at_def example_peer_hierarchy_def example_hierarchy_def example_level_def
      upt_conv_Cons numeral_2_eq_2)

lemma example_peer_same: "same_decomposition (example_ops 2) example_peer_ops"
  by (simp add: same_decomposition_def example_fields example_peer_fields example_table
      example_upto example_peer_hierarchy_def example_hierarchy_def example_level_def)

lemma example_run_delivers:
  "allreduce_delivers_int [example_ops 2, example_peer_ops] MPI_MIN
     (\<lambda>p. sequential_min p 0 interior_only)"
  "allreduce_delivers_int [example_ops 2, example_peer_ops] MPI_MAX
     (\<lambda>p. sequential_max p 0 interior_only)"
  "allreduce_delivers_ulong [example_ops 2, example_peer_ops] MPI_SUM
     (\<lambda>p. sequential_entries p 0)"
  by (simp_all add: allreduce_delivers_int_def allreduce_delivers_ulong_def example_fields
      example_peer_fields example_sequential example_peer_sequential combine_def
      example_hierarchy_def example_mpi_def example_peer_hierarchy_def)

text \<open>
  Claim C2, amended. On bound operators, one per process, \<open>min\<close>, \<open>max\<close> and
  \<open>numberOfEntries\<close> over the ghost regions first run the single-patch operator on every
  visited patch, accumulating a local result with the operation's own rule (minimum, maximum,
  sum); then, when the process count exceeds 1, they issue exactly one all-reduce of that
  local result (\<open>MPI_MIN\<close>, \<open>MPI_MAX\<close>, \<open>MPI_SUM\<close>) and return what it delivers, and with
  one process they issue none and return the local result. The final value is the reduction of
  the local results of all processes, returned identically on every process.
  \<open>numberOfEntries\<close> with \<open>interior_only\<close> makes no call, so it issues no all-reduce at any
  process count: it returns the sum of the sizes of the boxes of the precomputed decomposition
  times the depth, the same value on every process that holds the same decomposition and
  depth. The processes hold the same decomposition when \<open>resetLevels\<close> built it from the
  same levels (\<open>resetLevels_same_decomposition\<close>).
\<close>

theorem reduction_then_allreduce_when_parallel:
  assumes "ops \<in> set procs" and "\<forall>p\<in>set procs. bound p" and "d_hierarchy ops = Some h"
  shows
    "(resolves ops [data_id] \<longrightarrow>
        min_hier checked ops data_id interior_only =
          (reduction_calls ops (PatchMin data_id) data_id interior_only
             @ (if 1 < getSize (getMPI h)
                then [AllreduceInt MPI_MIN (sequential_min ops data_id interior_only)] else []),
           Inr (if 1 < getSize (getMPI h)
                then Allreduce_int (getMPI h) MPI_MIN (sequential_min ops data_id interior_only)
                else sequential_min ops data_id interior_only))
        \<and> max_hier checked ops data_id interior_only =
          (reduction_calls ops (PatchMax data_id) data_id interior_only
             @ (if 1 < getSize (getMPI h)
                then [AllreduceInt MPI_MAX (sequential_max ops data_id interior_only)] else []),
           Inr (if 1 < getSize (getMPI h)
                then Allreduce_int (getMPI h) MPI_MAX (sequential_max ops data_id interior_only)
                else sequential_max ops data_id interior_only))
        \<and> numberOfEntries checked ops data_id False =
          (reduction_calls ops (NumberOfEntries data_id) data_id False
             @ (if 1 < getSize (getMPI h)
                then [AllreduceULong MPI_SUM (sequential_entries ops data_id)] else []),
           Inr (if 1 < getSize (getMPI h)
                then Allreduce_ulong (getMPI h) MPI_SUM (sequential_entries ops data_id)
                else sequential_entries ops data_id)))
     \<and> ((\<forall>p\<in>set procs. resolves p [data_id])
          \<and> allreduce_delivers_int procs MPI_MIN (\<lambda>p. sequential_min p data_id interior_only)
          \<and> allreduce_delivers_int procs MPI_MAX (\<lambda>p. sequential_max p data_id interior_only)
          \<and> allreduce_delivers_ulong procs MPI_SUM (\<lambda>p. sequential_entries p data_id)
        \<longrightarrow>
          (\<forall>p\<in>set procs.
              snd (min_hier checked p data_id interior_only) =
                Inr (reduce_all MPI_MIN (map (\<lambda>p. sequential_min p data_id interior_only) procs))
              \<and> snd (max_hier checked p data_id interior_only) =
                Inr (reduce_all MPI_MAX (map (\<lambda>p. sequential_max p data_id interior_only) procs))
              \<and> snd (numberOfEntries checked p data_id False) =
                Inr (reduce_all MPI_SUM (map (\<lambda>p. sequential_entries p data_id) procs))))
     \<and> fst (numberOfEntries checked ops data_id True) = []
     \<and> (decomposition_sized ops \<and> getPatchDataFactory h data_id = Some dfact \<longrightarrow>
          numberOfEntries checked ops data_id True =
            ([], Inr (of_nat (spatial_entities ops) * of_int (getDepth dfact)))
          \<and> (\<forall>p\<in>set procs. \<forall>hp.
                d_hierarchy p = Some hp \<and> decomposition_sized p \<and> same_decomposition ops p
                \<and> map_option getDepth (getPatchDataFactory hp data_id) = Some (getDepth dfact)
              \<longrightarrow> numberOfEntries checked p data_id True
                    = numberOfEntries checked ops data_id True))"
    (is "?local \<and> ?everywhere \<and> ?silent \<and> ?interior")
proof -
  from assms(1,2) have b: "bound ops" by blast
  have local: "min_hier checked ops data_id interior_only =
          (reduction_calls ops (PatchMin data_id) data_id interior_only
             @ (if 1 < getSize (getMPI h)
                then [AllreduceInt MPI_MIN (sequential_min ops data_id interior_only)] else []),
           Inr (if 1 < getSize (getMPI h)
                then Allreduce_int (getMPI h) MPI_MIN (sequential_min ops data_id interior_only)
                else sequential_min ops data_id interior_only))
        \<and> max_hier checked ops data_id interior_only =
          (reduction_calls ops (PatchMax data_id) data_id interior_only
             @ (if 1 < getSize (getMPI h)
                then [AllreduceInt MPI_MAX (sequential_max ops data_id interior_only)] else []),
           Inr (if 1 < getSize (getMPI h)
                then Allreduce_int (getMPI h) MPI_MAX (sequential_max ops data_id interior_only)
                else sequential_max ops data_id interior_only))
        \<and> numberOfEntries checked ops data_id False =
          (reduction_calls ops (NumberOfEntries data_id) data_id False
             @ (if 1 < getSize (getMPI h)
                then [AllreduceULong MPI_SUM (sequential_entries ops data_id)] else []),
           Inr (if 1 < getSize (getMPI h)
                then Allreduce_ulong (getMPI h) MPI_SUM (sequential_entries ops data_id)
                else sequential_entries ops data_id))"
    if "resolves ops [data_id]"
    using b that assms(3)
    by (simp add: min_hier_bound max_hier_bound numberOfEntries_ghost_bound)
  have everywhere: "snd (min_hier checked p data_id interior_only) =
                Inr (reduce_all MPI_MIN (map (\<lambda>p. sequential_min p data_id interior_only) procs))
              \<and> snd (max_hier checked p data_id interior_only) =
                Inr (reduce_all MPI_MAX (map (\<lambda>p. sequential_max p data_id interior_only) procs))
              \<and> snd (numberOfEntries checked p data_id False) =
                Inr (reduce_all MPI_SUM (map (\<lambda>p. sequential_entries p data_id) procs))"
    if "\<forall>p\<in>set procs. resolves p [data_id]"
      and "allreduce_delivers_int procs MPI_MIN (\<lambda>p. sequential_min p data_id interior_only)"
      and "allreduce_delivers_int procs MPI_MAX (\<lambda>p. sequential_max p data_id interior_only)"
      and "allreduce_delivers_ulong procs MPI_SUM (\<lambda>p. sequential_entries p data_id)"
      and "p \<in> set procs" for p
  proof -
    from that(1,5) assms(2) have "bound p" "resolves p [data_id]" by blast+
    with that(2-5) show ?thesis
      by (simp only: min_hier_collective max_hier_collective numberOfEntries_ghost_collective)
  qed
  have interior: "numberOfEntries checked ops data_id True =
            ([], Inr (of_nat (spatial_entities ops) * of_int (getDepth dfact)))"
    if "decomposition_sized ops" "getPatchDataFactory h data_id = Some dfact"
    using numberOfEntries_interior_sum [OF b assms(3) that(2,1)] .
  have alike: "numberOfEntries checked p data_id True = numberOfEntries checked ops data_id True"
    if "decomposition_sized ops" "getPatchDataFactory h data_id = Some dfact"
      "p \<in> set procs" "d_hierarchy p = Some hp" "decomposition_sized p"
      "same_decomposition ops p"
      "map_option getDepth (getPatchDataFactory hp data_id) = Some (getDepth dfact)" for p hp
  proof -
    from that(3) assms(2) have "bound p" by blast
    from numberOfEntries_interior_alike [OF b this assms(3) that(4,1,5,6,2,7)]
    show ?thesis .
  qed
  have 1: ?local
    by (rule impI) (rule local)
  have 2: ?everywhere
  proof (intro impI ballI)
    fix p
    assume a: "(\<forall>p\<in>set procs. resolves p [data_id])
          \<and> allreduce_delivers_int procs MPI_MIN (\<lambda>p. sequential_min p data_id interior_only)
          \<and> allreduce_delivers_int procs MPI_MAX (\<lambda>p. sequential_max p data_id interior_only)
          \<and> allreduce_delivers_ulong procs MPI_SUM (\<lambda>p. sequential_entries p data_id)"
      and p: "p \<in> set procs"
    from a have a1: "\<forall>p\<in>set procs. resolves p [data_id]"
      and a2: "allreduce_delivers_int procs MPI_MIN (\<lambda>p. sequential_min p data_id interior_only)"
      and a3: "allreduce_delivers_int procs MPI_MAX (\<lambda>p. sequential_max p data_id interior_only)"
      and a4: "allreduce_delivers_ulong procs MPI_SUM (\<lambda>p. sequential_entries p data_id)"
      by simp_all
    from everywhere [OF a1 a2 a3 a4 p]
    show "snd (min_hier checked p data_id interior_only) =
                Inr (reduce_all MPI_MIN (map (\<lambda>p. sequential_min p data_id interior_only) procs))
              \<and> snd (max_hier checked p data_id interior_only) =
                Inr (reduce_all MPI_MAX (map (\<lambda>p. sequential_max p data_id interior_only) procs))
              \<and> snd (numberOfEntries checked p data_id False) =
                Inr (reduce_all MPI_SUM (map (\<lambda>p. sequential_entries p data_id) procs))" .
  qed
  have 3: ?silent
    by (rule numberOfEntries_interior_no_calls)
  have 4: ?interior
  proof (intro impI conjI ballI allI)
    assume a: "decomposition_sized ops \<and> getPatchDataFactory h data_id = Some dfact"
    then show "numberOfEntries checked ops data_id True =
            ([], Inr (of_nat (spatial_entities ops) * of_int (getDepth dfact)))"
      using interior by blast
    fix p hp
    assume p: "p \<in> set procs"
      and q: "d_hierarchy p = Some hp \<and> decomposition_sized p \<and> same_decomposition ops p
                \<and> map_option getDepth (getPatchDataFactory hp data_id) = Some (getDepth dfact)"
    from a q p show "numberOfEntries checked p data_id True
                    = numberOfEntries checked ops data_id True"
      using alike by blast
  qed
  from 1 2 3 4 show ?thesis by (intro conjI)
qed

theorem reduction_then_allreduce_when_parallel_witness:
  "example_ops 2 \<in> set [example_ops 2, example_peer_ops]
   \<and> bound (example_ops 2) \<and> bound example_peer_ops
   \<and> resolves (example_ops 2) [0] \<and> resolves example_peer_ops [0]
   \<and> min_hier True (example_ops 2) 0 True =
       ([PatchOp 0 (example_patch 0) (PatchMin 0 [(0, 0), (0, 0)]),
         PatchOp 0 (example_patch 1) (PatchMin 0 [(1, 1), (0, 0)]),
         AllreduceInt MPI_MIN 2], Inr 1)
   \<and> snd (min_hier True example_peer_ops 0 True) = Inr 1
   \<and> numberOfEntries True (example_ops 2) 0 False =
       ([PatchOp 0 (example_patch 0) (NumberOfEntries 0 [(- 1, 1), (- 1, 1)]),
         PatchOp 0 (example_patch 1) (NumberOfEntries 0 [(0, 2), (- 1, 1)]),
         AllreduceULong MPI_SUM 4], Inr 8)
   \<and> snd (numberOfEntries True example_peer_ops 0 False) = Inr 8
   \<and> numberOfEntries True (example_ops 2) 0 True = ([], Inr 7)
   \<and> numberOfEntries True example_peer_ops 0 True = ([], Inr 7)"
proof -
  let ?procs = "[example_ops 2, example_peer_ops]"
  have m: "example_ops 2 \<in> set ?procs" by simp
  have b: "\<forall>p\<in>set ?procs. bound p"
    using example_bound [of 2] example_peer_bound by simp
  have r: "\<forall>p\<in>set ?procs. resolves p [0]"
    using example_resolves0 [of 2] example_peer_resolves by simp
  have f: "getPatchDataFactory (example_hierarchy 2) 0 =
      Some \<lparr>getDepth = 1, getGhostCellWidth = [1, 1]\<rparr>"
    "map_option getDepth (getPatchDataFactory example_peer_hierarchy 0) = Some 1"
    by (simp_all add: example_hierarchy_def example_peer_hierarchy_def)
  note t = reduction_then_allreduce_when_parallel [OF m b example_fields(2), where checked=True and data_id=0
      and interior_only=True and dfact="\<lparr>getDepth = 1, getGhostCellWidth = [1, 1]\<rparr>"]
  from t example_resolves0 [of 2]
  have "min_hier True (example_ops 2) 0 True =
       ([PatchOp 0 (example_patch 0) (PatchMin 0 [(0, 0), (0, 0)]),
         PatchOp 0 (example_patch 1) (PatchMin 0 [(1, 1), (0, 0)]),
         AllreduceInt MPI_MIN 2], Inr 1)"
    and "numberOfEntries True (example_ops 2) 0 False =
       ([PatchOp 0 (example_patch 0) (NumberOfEntries 0 [(- 1, 1), (- 1, 1)]),
         PatchOp 0 (example_patch 1) (NumberOfEntries 0 [(0, 2), (- 1, 1)]),
         AllreduceULong MPI_SUM 4], Inr 8)"
    by (simp_all add: reduction_calls_def example_visited example_regions example_sequential
        example_hierarchy_def example_mpi_def)
  moreover
  from t r example_run_delivers(1,2) [of True] example_run_delivers(3)
  have "\<forall>p\<in>set ?procs.
          snd (min_hier True p 0 True) =
            Inr (reduce_all MPI_MIN (map (\<lambda>p. sequential_min p 0 True) ?procs))
          \<and> snd (max_hier True p 0 True) =
            Inr (reduce_all MPI_MAX (map (\<lambda>p. sequential_max p 0 True) ?procs))
          \<and> snd (numberOfEntries True p 0 False) =
            Inr (reduce_all MPI_SUM (map (\<lambda>p. sequential_entries p 0) ?procs))"
    by blast
  then have "snd (min_hier True example_peer_ops 0 True) = Inr 1"
    and "snd (numberOfEntries True example_peer_ops 0 False) = Inr 8"
    by (simp_all add: example_sequential example_peer_sequential combine_def)
  moreover
  from t example_sized [of 2] f(1)
  have i: "numberOfEntries True (example_ops 2) 0 True = ([], Inr 7)"
    and a: "\<forall>p\<in>set ?procs. \<forall>hp.
                d_hierarchy p = Some hp \<and> decomposition_sized p
                \<and> same_decomposition (example_ops 2) p
                \<and> map_option getDepth (getPatchDataFactory hp 0) = Some 1
              \<longrightarrow> numberOfEntries True p 0 True = numberOfEntries True (example_ops 2) 0 True"
    by (simp_all add: example_spatial_entities)
  from a example_peer_fields(1) example_peer_sized example_peer_same f(2)
  have "numberOfEntries True example_peer_ops 0 True = numberOfEntries True (example_ops 2) 0 True"
    by simp
  with i have "numberOfEntries True (example_ops 2) 0 True = ([], Inr 7)"
    and "numberOfEntries True example_peer_ops 0 True = ([], Inr 7)"
    by simp_all
  ultimately show ?thesis
    using example_bound [of 2] example_peer_bound example_resolves0 [of 2] example_peer_resolves
    by simp
qed

section \<open>resetLevels and the constructor\<close>

lemma length_resize: "length (resize n v) = n"
  by (simp add: resize_def)

lemma resize_rows:
  assumes "\<forall>d\<in>set ds. d < length tbl" and "0 \<le> finest_level + 1"
  shows "\<exists>tbl'. fold_err (\<lambda>d tbl.
             if d < length tbl \<and> 0 \<le> finest_level + 1
             then Inr (tbl[d := resize (nat (finest_level + 1)) (tbl ! d)])
             else Inl UndefinedBehaviour) ds tbl = Inr tbl'
           \<and> length tbl' = length tbl
           \<and> (\<forall>d\<in>set ds. length (tbl' ! d) = nat (finest_level + 1))"
  using assms(1)
proof (induction ds arbitrary: tbl)
  case Nil
  show ?case by simp
next
  case (Cons d ds)
  let ?t = "tbl[d := resize (nat (finest_level + 1)) (tbl ! d)]"
  let ?body = "\<lambda>d tbl.
             if d < length tbl \<and> 0 \<le> finest_level + 1
             then Inr (tbl[d := resize (nat (finest_level + 1)) (tbl ! d)])
             else Inl UndefinedBehaviour"
  from Cons.prems have d: "d < length tbl" and ds: "\<forall>d\<in>set ds. d < length ?t" by simp_all
  from Cons.IH [OF ds] obtain tbl' where t: "fold_err ?body ds ?t = Inr tbl'"
    "length tbl' = length ?t" "\<forall>d\<in>set ds. length (tbl' ! d) = nat (finest_level + 1)"
    by blast
  have keep: "length (tbl' ! d) = nat (finest_level + 1)"
  proof (cases "d \<in> set ds")
    case True
    with t(3) show ?thesis by blast
  next
    case False
    have "\<And>t t'. d \<notin> set ds \<Longrightarrow> fold_err ?body ds t = Inr t' \<Longrightarrow> t' ! d = t ! d"
    proof (induction ds)
      case Nil
      then show ?case by simp
    next
      case (Cons a ds)
      then show ?case by (auto split: if_splits)
    qed
    with False t(1) have "tbl' ! d = ?t ! d" by blast
    with d show ?thesis by (simp add: length_resize)
  qed
  from d assms(2) t keep show ?case by auto
qed

lemma resetLevels_resize_ok:
  assumes "dimVal \<le> length tbl" and "0 \<le> finest_level + 1"
  shows "\<exists>tbl'. resetLevels_resize dimVal finest_level tbl = Inr tbl'
           \<and> length tbl' = length tbl
           \<and> (\<forall>d<dimVal. length (tbl' ! d) = nat (finest_level + 1))"
proof -
  from assms(1) have "\<forall>d\<in>set [0..<dimVal]. d < length tbl" by auto
  from resize_rows [OF this assms(2)] show ?thesis
    by (auto simp: resetLevels_resize_def)
qed

lemma fill_axes:
  fixes V :: "nat \<Rightarrow> box list list"
  assumes "\<forall>nd\<in>set nds. nd < length tbl \<and> nat ln < length (tbl ! nd)" and "0 \<le> ln"
  shows "\<exists>tbl'. fold_err (\<lambda>nd tbl.
             case set_edge_boxes tbl nd ln (V nd) of
               None \<Rightarrow> Inl UndefinedBehaviour
             | Some tbl' \<Rightarrow> Inr tbl') nds tbl = Inr tbl'
           \<and> length tbl' = length tbl
           \<and> (\<forall>nd. length (tbl' ! nd) = length (tbl ! nd))
           \<and> (\<forall>nd\<in>set nds. tbl' ! nd ! nat ln = V nd)
           \<and> (\<forall>nd k. nd \<notin> set nds \<or> k \<noteq> nat ln \<longrightarrow> tbl' ! nd ! k = tbl ! nd ! k)"
  using assms(1)
proof (induction nds arbitrary: tbl)
  case Nil
  show ?case by simp
next
  case (Cons a nds)
  let ?body = "\<lambda>nd tbl.
             case set_edge_boxes tbl nd ln (V nd) of
               None \<Rightarrow> Inl UndefinedBehaviour
             | Some tbl' \<Rightarrow> Inr tbl'"
  let ?t = "tbl[a := (tbl ! a)[nat ln := V a]]"
  from Cons.prems have a: "a < length tbl" "nat ln < length (tbl ! a)" by simp_all
  have len: "length (?t ! nd) = length (tbl ! nd)" for nd
    using a by (cases "nd = a") simp_all
  from Cons.prems have "\<forall>nd\<in>set nds. nd < length ?t \<and> nat ln < length (?t ! nd)"
    by (simp add: len)
  from Cons.IH [OF this] obtain tbl' where t: "fold_err ?body nds ?t = Inr tbl'"
    "length tbl' = length ?t" "\<forall>nd. length (tbl' ! nd) = length (?t ! nd)"
    "\<forall>nd\<in>set nds. tbl' ! nd ! nat ln = V nd"
    "\<forall>nd k. nd \<notin> set nds \<or> k \<noteq> nat ln \<longrightarrow> tbl' ! nd ! k = ?t ! nd ! k"
    by blast
  have step: "fold_err ?body (a # nds) tbl = Inr tbl'"
    using a assms(2) t(1) by (simp add: set_edge_boxes_def)
  have filled: "tbl' ! a ! nat ln = V a"
  proof (cases "a \<in> set nds")
    case True
    with t(4) show ?thesis by blast
  next
    case False
    with t(5) have "tbl' ! a ! nat ln = ?t ! a ! nat ln" by blast
    with a show ?thesis by simp
  qed
  have other: "tbl' ! nd ! k = tbl ! nd ! k" if "nd \<notin> set (a # nds) \<or> k \<noteq> nat ln" for nd k
  proof -
    from that t(5) have "tbl' ! nd ! k = ?t ! nd ! k" by auto
    also have "?t ! nd ! k = tbl ! nd ! k"
      using that a by (cases "nd = a") auto
    finally show ?thesis .
  qed
  from step t(2,3,4) filled other len show ?case
    by (intro exI [of _ tbl']) auto
qed

lemma resetLevels_level_ok:
  assumes rows: "dimVal \<le> length tbl" "\<forall>nd<dimVal. length (tbl ! nd) = n"
    and ln: "0 \<le> ln" "nat ln < n" "ln < getNumberOfLevels h"
  shows "\<exists>tbl'. resetLevels_level toEdgeBox h dimVal ln tbl = Inr tbl'
           \<and> length tbl' = length tbl
           \<and> (\<forall>nd<dimVal. length (tbl' ! nd) = n)
           \<and> (\<forall>nd<dimVal. tbl' ! nd ! nat ln = level_edge_boxes toEdgeBox h nd ln)
           \<and> (\<forall>nd k. k \<noteq> nat ln \<longrightarrow> tbl' ! nd ! k = tbl ! nd ! k)"
proof -
  let ?V = "\<lambda>nd. level_edge_boxes toEdgeBox h nd ln"
  from rows ln have "\<forall>nd\<in>set [0..<dimVal]. nd < length tbl \<and> nat ln < length (tbl ! nd)"
    by auto
  from fill_axes [OF this ln(1), of ?V] obtain tbl' where
    t: "fold_err (\<lambda>nd tbl.
             case set_edge_boxes tbl nd ln (?V nd) of
               None \<Rightarrow> Inl UndefinedBehaviour
             | Some tbl' \<Rightarrow> Inr tbl') [0..<dimVal] tbl = Inr tbl'"
      "length tbl' = length tbl"
      "\<forall>nd. length (tbl' ! nd) = length (tbl ! nd)"
      "\<forall>nd\<in>set [0..<dimVal]. tbl' ! nd ! nat ln = ?V nd"
      "\<forall>nd k. nd \<notin> set [0..<dimVal] \<or> k \<noteq> nat ln \<longrightarrow> tbl' ! nd ! k = tbl ! nd ! k"
    by blast
  from ln have lvl: "getPatchLevel h ln = Some (patch_levels h ! nat ln)"
    by (simp add: getPatchLevel_def)
  have "resetLevels_level toEdgeBox h dimVal ln tbl = Inr tbl'"
    using t(1) by (simp add: resetLevels_level_def lvl level_edge_boxes_def)
  with t(2-5) rows show ?thesis
    by (intro exI [of _ tbl']) auto
qed

lemma resetLevels_levels_ok:
  assumes "dimVal \<le> length tbl" "\<forall>nd<dimVal. length (tbl ! nd) = n"
    and "\<forall>ln\<in>set lns. 0 \<le> ln \<and> nat ln < n \<and> ln < getNumberOfLevels h"
  shows "\<exists>tbl'. fold_err (resetLevels_level toEdgeBox h dimVal) lns tbl = Inr tbl'
           \<and> length tbl' = length tbl
           \<and> (\<forall>nd<dimVal. length (tbl' ! nd) = n)
           \<and> (\<forall>nd<dimVal. \<forall>ln\<in>set lns. tbl' ! nd ! nat ln = level_edge_boxes toEdgeBox h nd ln)
           \<and> (\<forall>nd k. k \<notin> nat ` set lns \<longrightarrow> tbl' ! nd ! k = tbl ! nd ! k)"
  using assms
proof (induction lns arbitrary: tbl)
  case Nil
  then show ?case by simp
next
  case (Cons a lns)
  from Cons.prems(3) have a: "0 \<le> a" "nat a < n" "a < getNumberOfLevels h" by simp_all
  from resetLevels_level_ok [OF Cons.prems(1,2) a, of toEdgeBox] obtain t1 where
    t1: "resetLevels_level toEdgeBox h dimVal a tbl = Inr t1" "length t1 = length tbl"
      "\<forall>nd<dimVal. length (t1 ! nd) = n"
      "\<forall>nd<dimVal. t1 ! nd ! nat a = level_edge_boxes toEdgeBox h nd a"
      "\<forall>nd k. k \<noteq> nat a \<longrightarrow> t1 ! nd ! k = tbl ! nd ! k"
    by blast
  from Cons.prems(1) t1(2) have d1: "dimVal \<le> length t1" by simp
  from Cons.prems(3) have rest: "\<forall>ln\<in>set lns. 0 \<le> ln \<and> nat ln < n \<and> ln < getNumberOfLevels h"
    by simp
  from Cons.IH [OF d1 t1(3) rest] obtain t2 where
    t2: "fold_err (resetLevels_level toEdgeBox h dimVal) lns t1 = Inr t2" "length t2 = length t1"
      "\<forall>nd<dimVal. length (t2 ! nd) = n"
      "\<forall>nd<dimVal. \<forall>ln\<in>set lns. t2 ! nd ! nat ln = level_edge_boxes toEdgeBox h nd ln"
      "\<forall>nd k. k \<notin> nat ` set lns \<longrightarrow> t2 ! nd ! k = t1 ! nd ! k"
    by blast
  have step: "fold_err (resetLevels_level toEdgeBox h dimVal) (a # lns) tbl = Inr t2"
    using t1(1) t2(1) by simp
  have head: "t2 ! nd ! nat a = level_edge_boxes toEdgeBox h nd a" if "nd < dimVal" for nd
  proof (cases "a \<in> set lns")
    case True
    with t2(4) that show ?thesis by blast
  next
    case False
    have "nat a \<notin> nat ` set lns"
    proof
      assume "nat a \<in> nat ` set lns"
      then obtain b where b: "b \<in> set lns" "nat a = nat b" by auto
      with rest have "0 \<le> b" by blast
      with b(2) a(1) have "a = b" by simp
      with b(1) False show False by simp
    qed
    with t2(5) have "t2 ! nd ! nat a = t1 ! nd ! nat a" by blast
    with t1(4) that show ?thesis by simp
  qed
  have other: "t2 ! nd ! k = tbl ! nd ! k" if "k \<notin> nat ` set (a # lns)" for nd k
  proof -
    from that have "k \<notin> nat ` set lns" "k \<noteq> nat a" by auto
    with t2(5) t1(5) show ?thesis by simp
  qed
  from step t1(2) t2(2,3,4) head other show ?case
    by (intro exI [of _ t2]) auto
qed

lemma resetLevels_success:
  assumes h: "d_hierarchy ops = Some h"
    and v: "levels_valid h coarsest_level finest_level"
    and dim: "getDim h \<le> length (d_nonoverlapping_edge_boxes ops)"
  shows "\<exists>tbl. resetLevels checked toEdgeBox ops coarsest_level finest_level =
             Inr (ops\<lparr>d_coarsest_level := coarsest_level, d_finest_level := finest_level,
                      d_nonoverlapping_edge_boxes := tbl\<rparr>)
           \<and> length tbl = length (d_nonoverlapping_edge_boxes ops)
           \<and> (\<forall>nd<getDim h. \<forall>ln. coarsest_level \<le> ln \<and> ln \<le> finest_level \<longrightarrow>
                edge_boxes_at tbl nd ln = Some (level_edge_boxes toEdgeBox h nd ln))"
proof -
  let ?n = "nat (finest_level + 1)"
  from v have f: "0 \<le> finest_level + 1" and c: "0 \<le> coarsest_level"
    and top: "finest_level < getNumberOfLevels h"
    by (simp_all add: levels_valid_def getFinestLevelNumber_def getNumberOfLevels_def)
  from resetLevels_resize_ok [OF dim f] obtain t1 where
    t1: "resetLevels_resize (getDim h) finest_level (d_nonoverlapping_edge_boxes ops) = Inr t1"
      "length t1 = length (d_nonoverlapping_edge_boxes ops)"
      "\<forall>d<getDim h. length (t1 ! d) = ?n"
    by blast
  from dim t1(2) have d1: "getDim h \<le> length t1" by simp
  have lns: "\<forall>ln\<in>set [coarsest_level..finest_level]. 0 \<le> ln \<and> nat ln < ?n \<and> ln < getNumberOfLevels h"
    using c top by auto
  from resetLevels_levels_ok [OF d1 t1(3) lns, of toEdgeBox] obtain t2 where
    t2: "fold_err (resetLevels_level toEdgeBox h (getDim h)) [coarsest_level..finest_level] t1 = Inr t2"
      "length t2 = length t1" "\<forall>nd<getDim h. length (t2 ! nd) = ?n"
      "\<forall>nd<getDim h. \<forall>ln\<in>set [coarsest_level..finest_level].
          t2 ! nd ! nat ln = level_edge_boxes toEdgeBox h nd ln"
    by blast
  have r: "resetLevels checked toEdgeBox ops coarsest_level finest_level =
             Inr (ops\<lparr>d_coarsest_level := coarsest_level, d_finest_level := finest_level,
                      d_nonoverlapping_edge_boxes := t2\<rparr>)"
    using h v t1(1) t2(1) by (simp add: resetLevels_def Let_def)
  have "edge_boxes_at t2 nd ln = Some (level_edge_boxes toEdgeBox h nd ln)"
    if "nd < getDim h" "coarsest_level \<le> ln" "ln \<le> finest_level" for nd ln
  proof -
    from that c have "0 \<le> ln" "nat ln < ?n" by simp_all
    moreover from that d1 t2(2) have "nd < length t2" by simp
    moreover from that t2(3) have "length (t2 ! nd) = ?n" by simp
    moreover from that t2(4) have "t2 ! nd ! nat ln = level_edge_boxes toEdgeBox h nd ln" by simp
    ultimately show ?thesis by (simp add: edge_boxes_at_def)
  qed
  with r t1(2) t2(2) show ?thesis
    by (intro exI [of _ t2]) simp
qed

text \<open>
  Claim C9. When the constructor is given a negative \<open>coarsest_level\<close> or \<open>finest_level\<close>
  and the hierarchy has no level, both values are stored as they are and the operator is not
  bound; when the hierarchy has levels, the arguments are not rejected: the constructor does
  what it does for the arguments \<open>0\<close> and the hierarchy's finest level number, and (for a
  hierarchy whose dimension is within \<^verbatim>\<open>MAX_DIM_VAL\<close>) returns an operator bound to that
  full range.
\<close>

theorem constructor_with_negative_level:
  assumes "coarsest_level < 0 \<or> finest_level < 0"
  shows
    "(getNumberOfLevels h = 0 \<longrightarrow>
        (\<exists>ops. HierarchyEdgeDataOpsInteger_new checked toEdgeBox patch_ops (Some h)
                  coarsest_level finest_level = Inr ops
              \<and> d_hierarchy ops = Some h \<and> d_coarsest_level ops = coarsest_level
              \<and> d_finest_level ops = finest_level \<and> \<not> bound ops))
     \<and> (getNumberOfLevels h \<noteq> 0 \<longrightarrow>
        HierarchyEdgeDataOpsInteger_new checked toEdgeBox patch_ops (Some h)
          coarsest_level finest_level =
        HierarchyEdgeDataOpsInteger_new checked toEdgeBox patch_ops (Some h)
          0 (getFinestLevelNumber h))
     \<and> (getNumberOfLevels h \<noteq> 0 \<and> getDim h \<le> MAX_DIM_VAL \<longrightarrow>
        (\<exists>ops. HierarchyEdgeDataOpsInteger_new checked toEdgeBox patch_ops (Some h)
                  coarsest_level finest_level = Inr ops
              \<and> d_hierarchy ops = Some h \<and> d_coarsest_level ops = 0
              \<and> d_finest_level ops = getFinestLevelNumber h \<and> bound ops))"
proof -
  let ?ops0 = "\<lparr>d_hierarchy = Some h, d_coarsest_level = 0, d_finest_level = 0,
                d_nonoverlapping_edge_boxes = replicate MAX_DIM_VAL [],
                d_patch_ops = patch_ops\<rparr>"
  have zero: "\<not> bound (?ops0\<lparr>d_coarsest_level := coarsest_level, d_finest_level := finest_level\<rparr>)"
    using assms by (auto simp: bound_def levels_valid_def)
  have same: "HierarchyEdgeDataOpsInteger_new checked toEdgeBox patch_ops (Some h)
          coarsest_level finest_level =
        HierarchyEdgeDataOpsInteger_new checked toEdgeBox patch_ops (Some h)
          0 (getFinestLevelNumber h)" if "getNumberOfLevels h \<noteq> 0"
    using assms that
    by (simp add: HierarchyEdgeDataOpsInteger_new_def getFinestLevelNumber_def
        getNumberOfLevels_def)
  have full: "\<exists>ops. HierarchyEdgeDataOpsInteger_new checked toEdgeBox patch_ops (Some h)
                  coarsest_level finest_level = Inr ops
              \<and> d_hierarchy ops = Some h \<and> d_coarsest_level ops = 0
              \<and> d_finest_level ops = getFinestLevelNumber h \<and> bound ops"
    if n: "getNumberOfLevels h \<noteq> 0" and d: "getDim h \<le> MAX_DIM_VAL"
  proof -
    from n have v: "levels_valid h 0 (getFinestLevelNumber h)"
      by (simp add: levels_valid_def getFinestLevelNumber_def getNumberOfLevels_def)
    from d have d': "getDim h \<le> length (d_nonoverlapping_edge_boxes ?ops0)" by simp
    from resetLevels_success [of ?ops0 h, OF _ v d', of checked toEdgeBox] obtain tbl where
      "resetLevels checked toEdgeBox ?ops0 0 (getFinestLevelNumber h) =
         Inr (?ops0\<lparr>d_coarsest_level := 0, d_finest_level := getFinestLevelNumber h,
                    d_nonoverlapping_edge_boxes := tbl\<rparr>)"
      by auto
    with assms n v show ?thesis
      by (simp add: HierarchyEdgeDataOpsInteger_new_def bound_def)
  qed
  from zero same full show ?thesis
    using assms by (auto simp: HierarchyEdgeDataOpsInteger_new_def)
qed

lemma example_decomposition:
  "makeNonOverlappingBoxContainers [[(0, 1), (0, 0)], [(1, 2), (0, 0)]]
     = [[[(0, 1), (0, 0)]], [[(2, 2), (0, 0)]]]"
  "makeNonOverlappingBoxContainers [[(0, 0), (0, 1)], [(1, 1), (0, 1)]]
     = [[[(0, 0), (0, 1)]], [[(1, 1), (0, 1)]]]"
  by (simp_all add: makeNonOverlappingBoxContainers_def removeIntersections_def box_minus_def
      intersects_def)

lemma example_reset:
  "resetLevels checked toEdgeBox_spec
     \<lparr>d_hierarchy = Some (example_hierarchy n), d_coarsest_level = 0, d_finest_level = 0,
      d_nonoverlapping_edge_boxes = replicate MAX_DIM_VAL [],
      d_patch_ops = example_patch_ops\<rparr> 0 0 = Inr (example_ops n)"
  by (simp add: resetLevels_def levels_valid_def getFinestLevelNumber_def example_hierarchy_def
      resetLevels_resize_def resetLevels_level_def getPatchLevel_def getNumberOfLevels_def
      set_edge_boxes_def resize_def example_level_def toEdgeBox_spec_def MAX_DIM_VAL_def
      example_upto upt_conv_Cons numeral_2_eq_2 numeral_3_eq_3 example_decomposition
      example_ops_def)

lemma example_constructed:
  "HierarchyEdgeDataOpsInteger_new True toEdgeBox_spec example_patch_ops
     (Some (example_hierarchy n)) (- 1) 0 = Inr (example_ops n)"
proof -
  have "getNumberOfLevels (example_hierarchy n) = 1" "getFinestLevelNumber (example_hierarchy n) = 0"
    by (simp_all add: getNumberOfLevels_def getFinestLevelNumber_def example_hierarchy_def)
  then show ?thesis
    by (simp add: HierarchyEdgeDataOpsInteger_new_def example_reset)
qed

theorem constructor_with_negative_level_witness:
  "HierarchyEdgeDataOpsInteger_new True toEdgeBox_spec example_patch_ops
     (Some example_empty_hierarchy) (- 1) (- 1) = Inr example_unbound_ops
   \<and> \<not> bound example_unbound_ops
   \<and> HierarchyEdgeDataOpsInteger_new True toEdgeBox_spec example_patch_ops
       (Some (example_hierarchy 1)) (- 1) 0 = Inr (example_ops 1)
   \<and> bound (example_ops 1) \<and> d_coarsest_level (example_ops 1) = 0
   \<and> d_finest_level (example_ops 1) = getFinestLevelNumber (example_hierarchy 1)"
proof -
  have neg: "(- 1 :: int) < 0 \<or> (- 1 :: int) < 0" "(- 1 :: int) < 0 \<or> (0 :: int) < 0"
    by simp_all
  have z: "getNumberOfLevels example_empty_hierarchy = 0"
    by (simp add: getNumberOfLevels_def example_empty_hierarchy_def)
  have nz: "getNumberOfLevels (example_hierarchy 1) \<noteq> 0 \<and> getDim (example_hierarchy 1) \<le> MAX_DIM_VAL"
    by (simp add: getNumberOfLevels_def example_hierarchy_def MAX_DIM_VAL_def)
  have e: "HierarchyEdgeDataOpsInteger_new True toEdgeBox_spec example_patch_ops
     (Some example_empty_hierarchy) (- 1) (- 1) = Inr example_unbound_ops"
    using z
    by (simp add: HierarchyEdgeDataOpsInteger_new_def example_unbound_ops_def MAX_DIM_VAL_def
        numeral_3_eq_3)
  from constructor_with_negative_level [OF neg(1), of example_empty_hierarchy True
      toEdgeBox_spec example_patch_ops] z e
  have u: "\<not> bound example_unbound_ops" by auto
  from constructor_with_negative_level [OF neg(2), of "example_hierarchy 1" True
      toEdgeBox_spec example_patch_ops] nz example_constructed [of 1]
  have "bound (example_ops 1) \<and> d_coarsest_level (example_ops 1) = 0
      \<and> d_finest_level (example_ops 1) = getFinestLevelNumber (example_hierarchy 1)"
    by auto
  with e u example_constructed [of 1] show ?thesis by simp
qed

section \<open>The box algebra: the decomposition is a partition\<close>

lemma points_of_Nil [simp]: "points_of [] = {[]}"
  by (auto simp: points_of_def)

lemma points_of_Cons:
  "points_of ((l, h) # r) = (\<lambda>(x, xs). x # xs) ` ({l..h} \<times> points_of r)"
  by (auto simp: points_of_def list_all2_Cons2 image_iff)

lemma Cons_in_points_of [simp]:
  "x # xs \<in> points_of ((l, h) # r) \<longleftrightarrow> l \<le> x \<and> x \<le> h \<and> xs \<in> points_of r"
  by (simp add: points_of_def)

lemma points_of_length: "p \<in> points_of b \<Longrightarrow> length p = length b"
  by (simp add: points_of_def list_all2_lengthD)

lemma finite_points_of: "finite (points_of b)"
proof (induction b)
  case Nil
  show ?case by simp
next
  case (Cons iv r)
  obtain l h where iv: "iv = (l, h)" by (cases iv)
  from Cons show ?case by (simp add: iv points_of_Cons)
qed

lemma card_points_of: "card (points_of b) = prod_list (map (\<lambda>(l, h). nat (h - l + 1)) b)"
proof (induction b)
  case Nil
  show ?case by simp
next
  case (Cons iv r)
  obtain l h where iv: "iv = (l, h)" by (cases iv)
  have inj: "inj_on (\<lambda>(x, xs). x # xs) ({l..h} \<times> points_of r)"
    by (auto simp: inj_on_def)
  have "card (points_of (iv # r)) = card ({l..h} \<times> points_of r)"
    by (simp add: iv points_of_Cons card_image [OF inj])
  also have "\<dots> = nat (h - l + 1) * card (points_of r)"
    by (simp add: card_cartesian_product)
  finally show ?case using Cons by (simp add: iv)
qed

lemma finite_box_points: "finite (box_points b)"
  by (simp add: box_points_def finite_points_of)

lemma prod_list_zero_interval:
  "(l, h) \<in> set b \<Longrightarrow> h < l \<Longrightarrow> prod_list (map (\<lambda>(l, h). nat (h - l + 1)) b) = 0"
  by (induction b) auto

lemma card_box_points: "card (box_points b) = box_size b"
proof (cases "box_empty b")
  case True
  then show ?thesis
    by (auto simp: box_points_def box_size_def box_empty_def card_points_of list_ex_iff
        prod_list_zero_interval)
next
  case False
  then show ?thesis
    by (auto simp: box_points_def box_size_def box_empty_def card_points_of)
qed

lemma disjoint_sets_append:
  "disjoint_sets (As @ Bs) \<longleftrightarrow>
     disjoint_sets As \<and> disjoint_sets Bs \<and> (\<forall>A\<in>set As. \<forall>B\<in>set Bs. A \<inter> B = {})"
  by (induction As) auto

lemma card_disjoint_sets:
  "disjoint_sets As \<Longrightarrow> \<forall>A\<in>set As. finite A \<Longrightarrow> card (\<Union>(set As)) = sum_list (map card As)"
proof (induction As)
  case Nil
  show ?case by simp
next
  case (Cons A As)
  then have "A \<inter> \<Union>(set As) = {}" by auto
  moreover from Cons.prems have "finite A" "finite (\<Union>(set As))" by auto
  ultimately have "card (A \<union> \<Union>(set As)) = card A + card (\<Union>(set As))"
    by (simp add: card_Un_disjoint)
  with Cons show ?case by simp
qed

lemma size_of_disjoint_boxes:
  assumes "disjoint_sets (map box_points bs)"
  shows "sum_list (map box_size bs) = card (\<Union>b\<in>set bs. box_points b)"
proof -
  have "card (\<Union>(set (map box_points bs))) = sum_list (map card (map box_points bs))"
    using assms by (intro card_disjoint_sets) (auto simp: finite_box_points)
  then show ?thesis
    by (simp add: comp_def card_box_points)
qed

lemma Nil_in_points_of [simp]: "[] \<in> points_of b \<longleftrightarrow> b = []"
  by (auto simp: points_of_def)

lemma in_points_of_Cons:
  "p \<in> points_of ((l, h) # r) \<longleftrightarrow> (\<exists>x xs. p = x # xs \<and> l \<le> x \<and> x \<le> h \<and> xs \<in> points_of r)"
  by (cases p) auto

lemma disjoint_sets_Cons_interval:
  "disjoint_sets (map points_of rs) \<Longrightarrow> disjoint_sets (map (\<lambda>r. points_of ((l, h) # r)) rs)"
proof (induction rs)
  case Nil
  show ?case by simp
next
  case (Cons r rs)
  have "points_of ((l, h) # r) \<inter> points_of ((l, h) # c) = {}" if "c \<in> set rs" for c
  proof -
    from Cons.prems that have "points_of r \<inter> points_of c = {}" by auto
    then show ?thesis by (auto simp: in_points_of_Cons)
  qed
  with Cons show ?case by auto
qed

lemma cut_interval:
  fixes al ah bl bh x :: int
  assumes "al \<le> ah \<and> al \<le> bh \<and> bl \<le> ah \<and> bl \<le> bh"
  shows "((al < bl \<and> al \<le> x \<and> x \<le> bl - 1 \<and> A) \<or> (bh < ah \<and> bh + 1 \<le> x \<and> x \<le> ah \<and> A)
           \<or> (max al bl \<le> x \<and> x \<le> min ah bh \<and> A \<and> \<not> B))
         = (al \<le> x \<and> x \<le> ah \<and> A \<and> \<not> (bl \<le> x \<and> x \<le> bh \<and> B))"
proof (cases A)
  case False
  then show ?thesis by simp
next
  case True
  show ?thesis
  proof (cases B)
    case True
    with \<open>A\<close> assms show ?thesis by (simp only: simp_thms) arith
  next
    case False
    with \<open>A\<close> assms show ?thesis by (simp only: simp_thms max.bounded_iff min.bounded_iff) arith
  qed
qed

lemma burst_points:
  assumes "list_all2 (\<lambda>(al, ah) (bl, bh). max al bl \<le> min ah bh) a b"
  shows "(\<Union>c\<in>set (burst a b). points_of c) = points_of a - points_of b
         \<and> disjoint_sets (map points_of (burst a b))"
  using assms
proof (induction a b rule: list_all2_induct)
  case Nil
  show ?case by simp
next
  case (Cons iva as ivb bs)
  obtain al ah where iva: "iva = (al, ah)" by (cases iva)
  obtain bl bh where ivb: "ivb = (bl, bh)" by (cases ivb)
  from Cons.hyps(1) have ov: "max al bl \<le> min ah bh" by (simp add: iva ivb)
  then have ov4: "al \<le> ah \<and> al \<le> bh \<and> bl \<le> ah \<and> bl \<le> bh" by simp
  let ?m = "(max al bl, min ah bh)"
  let ?L = "if al < bl then [(al, bl - 1) # as] else []"
  let ?U = "if bh < ah then [(bh + 1, ah) # as] else []"
  let ?M = "map (\<lambda>r. ?m # r) (burst as bs)"
  have b: "burst (iva # as) (ivb # bs) = ?L @ ?U @ ?M"
    by (simp add: iva ivb)
  from Cons.IH have ih: "(\<Union>c\<in>set (burst as bs). points_of c) = points_of as - points_of bs"
    and ihd: "disjoint_sets (map points_of (burst as bs))" by simp_all
  have mid: "(\<Union>c\<in>set ?M. points_of c) =
      {p. \<exists>x xs. p = x # xs \<and> max al bl \<le> x \<and> x \<le> min ah bh
            \<and> xs \<in> points_of as - points_of bs}"
  proof -
    have "(\<Union>c\<in>set ?M. points_of c) =
        {p. \<exists>x xs. p = x # xs \<and> max al bl \<le> x \<and> x \<le> min ah bh
              \<and> xs \<in> (\<Union>c\<in>set (burst as bs). points_of c)}"
      by (fastforce simp: in_points_of_Cons)
    then show ?thesis by (simp only: ih)
  qed
  have cover: "(\<Union>c\<in>set (?L @ ?U @ ?M). points_of c) = points_of (iva # as) - points_of (ivb # bs)"
  proof (rule set_eqI)
    fix p
    show "p \<in> (\<Union>c\<in>set (?L @ ?U @ ?M). points_of c)
        \<longleftrightarrow> p \<in> points_of (iva # as) - points_of (ivb # bs)"
    proof (cases p)
      case Nil
      have "[] \<notin> (\<Union>c\<in>set ?M. points_of c)" by (simp only: mid) simp
      then show ?thesis by (auto simp: Nil iva ivb)
    next
      case (Cons x xs)
      have m: "p \<in> (\<Union>c\<in>set ?M. points_of c) \<longleftrightarrow>
          max al bl \<le> x \<and> x \<le> min ah bh \<and> xs \<in> points_of as \<and> \<not> xs \<in> points_of bs"
        by (simp only: mid) (simp add: Cons)
      have l: "p \<in> (\<Union>c\<in>set ?L. points_of c) \<longleftrightarrow>
          al < bl \<and> al \<le> x \<and> x \<le> bl - 1 \<and> xs \<in> points_of as"
        by (simp add: Cons)
      have u: "p \<in> (\<Union>c\<in>set ?U. points_of c) \<longleftrightarrow>
          bh < ah \<and> bh + 1 \<le> x \<and> x \<le> ah \<and> xs \<in> points_of as"
        by (simp add: Cons)
      have r: "p \<in> points_of (iva # as) - points_of (ivb # bs) \<longleftrightarrow>
          al \<le> x \<and> x \<le> ah \<and> xs \<in> points_of as
          \<and> \<not> (bl \<le> x \<and> x \<le> bh \<and> xs \<in> points_of bs)"
        by (simp add: Cons iva ivb)
      have s: "p \<in> (\<Union>c\<in>set (?L @ ?U @ ?M). points_of c) \<longleftrightarrow>
          p \<in> (\<Union>c\<in>set ?L. points_of c) \<or> p \<in> (\<Union>c\<in>set ?U. points_of c)
          \<or> p \<in> (\<Union>c\<in>set ?M. points_of c)"
        by (simp only: set_append UN_Un Un_iff)
      show ?thesis
        by (simp only: s l u m r cut_interval [OF ov4])
    qed
  qed
  have dM: "disjoint_sets (map points_of ?M)"
    using disjoint_sets_Cons_interval [OF ihd, of "max al bl" "min ah bh"]
    by (simp add: comp_def)
  have sub: "c \<in> set ?M \<Longrightarrow> p \<in> points_of c \<Longrightarrow>
      \<exists>x xs. p = x # xs \<and> max al bl \<le> x \<and> x \<le> min ah bh" for c p
    by (auto simp: in_points_of_Cons)
  have LU: "A \<in> set (map points_of ?L) \<Longrightarrow> B \<in> set (map points_of ?U) \<Longrightarrow> A \<inter> B = {}" for A B
    using ov4 by (auto simp: in_points_of_Cons split: if_splits)
  have LM: "A \<in> set (map points_of ?L) \<Longrightarrow> B \<in> set (map points_of ?M) \<Longrightarrow> A \<inter> B = {}" for A B
    using ov4 by (auto simp: in_points_of_Cons split: if_splits)
  have UM: "A \<in> set (map points_of ?U) \<Longrightarrow> B \<in> set (map points_of ?M) \<Longrightarrow> A \<inter> B = {}" for A B
    using ov4 by (auto simp: in_points_of_Cons split: if_splits)
  have dL: "disjoint_sets (map points_of ?L)" and dU: "disjoint_sets (map points_of ?U)"
    by simp_all
  have "disjoint_sets (map points_of (?L @ ?U @ ?M))"
    unfolding map_append disjoint_sets_append
    using dL dU dM LU LM UM by (simp only: set_append Un_iff) blast
  with cover show ?case by (simp only: b)
qed

lemma common_point_overlap:
  "p \<in> points_of a \<Longrightarrow> p \<in> points_of b \<Longrightarrow>
     list_all2 (\<lambda>(al, ah) (bl, bh). max al bl \<le> min ah bh) a b"
proof (induction p arbitrary: a b)
  case Nil
  then show ?case by simp
next
  case (Cons x xs)
  from Cons.prems(1) obtain al ah as where a: "a = (al, ah) # as"
    by (cases a) (auto simp: points_of_def)
  from Cons.prems(2) obtain bl bh bs where b: "b = (bl, bh) # bs"
    by (cases b) (auto simp: points_of_def)
  from Cons.prems have "xs \<in> points_of as" "xs \<in> points_of bs"
    and "al \<le> x" "x \<le> ah" "bl \<le> x" "x \<le> bh"
    by (simp_all add: a b)
  with Cons.IH [of as bs] show ?case by (simp add: a b)
qed

lemma burst_pieces_nonempty: "c \<in> set (burst a b) \<Longrightarrow> c \<noteq> []"
  by (induction a b rule: burst.induct) (auto split: if_splits)

lemma box_points_subset: "box_points b \<subseteq> points_of b"
  by (simp add: box_points_def)

lemma box_minus_points:
  "(\<Union>c\<in>set (box_minus a b). box_points c) = box_points a - box_points b
   \<and> disjoint_sets (map box_points (box_minus a b))"
proof (cases "intersects a b")
  case True
  then have a: "a \<noteq> []" and ov: "list_all2 (\<lambda>(al, ah) (bl, bh). max al bl \<le> min ah bh) a b"
    by (simp_all add: intersects_def)
  from ov a have b: "b \<noteq> []" by auto
  have pieces: "box_points c = points_of c" if "c \<in> set (burst a b)" for c
    using burst_pieces_nonempty [OF that] by (simp add: box_points_def)
  then have m: "map box_points (burst a b) = map points_of (burst a b)" by simp
  from pieces have "(\<Union>c\<in>set (burst a b). box_points c) = (\<Union>c\<in>set (burst a b). points_of c)"
    by simp
  moreover have "box_points a - box_points b = points_of a - points_of b"
    using a b by (simp add: box_points_def)
  moreover have "box_minus a b = burst a b"
    using True by (simp add: box_minus_def)
  ultimately show ?thesis
    using burst_points [OF ov] by (simp only: m)
next
  case False
  have "box_points a \<inter> box_points b = {}"
  proof (cases "a = []")
    case True
    then show ?thesis by (simp add: box_points_def)
  next
    case nonempty: False
    with False have "\<not> list_all2 (\<lambda>(al, ah) (bl, bh). max al bl \<le> min ah bh) a b"
      by (simp add: intersects_def)
    then have "points_of a \<inter> points_of b = {}"
      using common_point_overlap by blast
    with box_points_subset [of a] box_points_subset [of b] show ?thesis by blast
  qed
  with False show ?thesis by (auto simp: box_minus_def)
qed

lemma removeIntersections_points:
  assumes "disjoint_sets (map box_points ps)"
  shows "(\<Union>c\<in>set (removeIntersections ps t). box_points c)
           = (\<Union>c\<in>set ps. box_points c) - box_points t
         \<and> disjoint_sets (map box_points (removeIntersections ps t))"
  using assms
proof (induction ps)
  case Nil
  show ?case by (simp add: removeIntersections_def)
next
  case (Cons p ps)
  have r: "removeIntersections (p # ps) t = box_minus p t @ removeIntersections ps t"
    by (simp add: removeIntersections_def)
  from Cons.prems have dps: "disjoint_sets (map box_points ps)"
    and px: "\<forall>c\<in>set ps. box_points p \<inter> box_points c = {}" by auto
  from Cons.IH [OF dps]
  have u: "(\<Union>c\<in>set (removeIntersections ps t). box_points c)
             = (\<Union>c\<in>set ps. box_points c) - box_points t"
    and d: "disjoint_sets (map box_points (removeIntersections ps t))" by simp_all
  from box_minus_points [of p t]
  have u1: "(\<Union>c\<in>set (box_minus p t). box_points c) = box_points p - box_points t"
    and d1: "disjoint_sets (map box_points (box_minus p t))" by simp_all
  have cross: "A \<inter> B = {}"
    if "A \<in> set (map box_points (box_minus p t))"
      "B \<in> set (map box_points (removeIntersections ps t))" for A B
  proof -
    from that(1) u1 have "A \<subseteq> box_points p" by auto
    moreover from that(2) u have "B \<subseteq> (\<Union>c\<in>set ps. box_points c)" by auto
    ultimately show ?thesis using px by blast
  qed
  have "disjoint_sets (map box_points (box_minus p t @ removeIntersections ps t))"
    unfolding map_append disjoint_sets_append using d d1 cross by blast
  moreover have "(\<Union>c\<in>set (box_minus p t @ removeIntersections ps t). box_points c)
      = (\<Union>c\<in>set (p # ps). box_points c) - box_points t"
    using u u1 by (simp only: set_append UN_Un) auto
  ultimately show ?case by (simp only: r)
qed

lemma foldl_removeIntersections_points:
  assumes "disjoint_sets (map box_points ps)"
  shows "(\<Union>c\<in>set (foldl removeIntersections ps placed). box_points c)
           = (\<Union>c\<in>set ps. box_points c) - (\<Union>c\<in>set placed. box_points c)
         \<and> disjoint_sets (map box_points (foldl removeIntersections ps placed))"
  using assms
proof (induction placed arbitrary: ps)
  case Nil
  then show ?case by simp
next
  case (Cons t placed)
  from removeIntersections_points [OF Cons.prems, of t]
  have u: "(\<Union>c\<in>set (removeIntersections ps t). box_points c)
             = (\<Union>c\<in>set ps. box_points c) - box_points t"
    and d: "disjoint_sets (map box_points (removeIntersections ps t))" by simp_all
  from Cons.IH [OF d] u show ?case by (simp only: foldl_Cons) auto
qed

lemma makeNonOverlapping_from_points:
  assumes "disjoint_sets (map box_points placed)"
  shows "disjoint_sets (map box_points (placed @ concat (makeNonOverlapping_from placed bs)))
         \<and> (\<Union>c\<in>set (placed @ concat (makeNonOverlapping_from placed bs)). box_points c)
             = (\<Union>c\<in>set placed. box_points c) \<union> (\<Union>c\<in>set bs. box_points c)"
  using assms
proof (induction bs arbitrary: placed)
  case Nil
  then show ?case by simp
next
  case (Cons b bs)
  let ?out = "foldl removeIntersections [b] placed"
  have "disjoint_sets (map box_points [b])" by simp
  from foldl_removeIntersections_points [OF this, of placed]
  have u: "(\<Union>c\<in>set ?out. box_points c) = box_points b - (\<Union>c\<in>set placed. box_points c)"
    and d: "disjoint_sets (map box_points ?out)" by simp_all
  have cross: "A \<inter> B = {}"
    if "A \<in> set (map box_points placed)" "B \<in> set (map box_points ?out)" for A B
  proof -
    from that(1) have "A \<subseteq> (\<Union>c\<in>set placed. box_points c)" by auto
    moreover from that(2) u have "B \<inter> (\<Union>c\<in>set placed. box_points c) = {}" by auto
    ultimately show ?thesis by blast
  qed
  have d2: "disjoint_sets (map box_points (placed @ ?out))"
    unfolding map_append disjoint_sets_append using Cons.prems d cross by blast
  have u2: "(\<Union>c\<in>set (placed @ ?out). box_points c)
      = (\<Union>c\<in>set placed. box_points c) \<union> box_points b"
    using u by (simp only: set_append UN_Un) auto
  have m: "placed @ concat (makeNonOverlapping_from placed (b # bs))
      = (placed @ ?out) @ concat (makeNonOverlapping_from (placed @ ?out) bs)"
    by (simp add: Let_def)
  from Cons.IH [OF d2] u2 show ?case
    by (simp only: m) auto
qed

lemma length_makeNonOverlapping_from: "length (makeNonOverlapping_from placed bs) = length bs"
  by (induction bs arbitrary: placed) (simp_all add: Let_def)

lemma makeNonOverlappingBoxContainers_partition:
  "disjoint_sets (map box_points (concat (makeNonOverlappingBoxContainers bs)))"
  "(\<Union>c\<in>set (concat (makeNonOverlappingBoxContainers bs)). box_points c)
     = (\<Union>b\<in>set bs. box_points b)"
  "length (makeNonOverlappingBoxContainers bs) = length bs"
  using makeNonOverlapping_from_points [of "[]" bs]
  by (simp_all add: makeNonOverlappingBoxContainers_def length_makeNonOverlapping_from)

lemma makeNonOverlappingBoxContainers_size:
  "sum_list (map box_size (concat (makeNonOverlappingBoxContainers bs)))
     = card (\<Union>b\<in>set bs. box_points b)"
  by (simp only: size_of_disjoint_boxes [OF makeNonOverlappingBoxContainers_partition(1)]
      makeNonOverlappingBoxContainers_partition(2))

section \<open>Counting entries\<close>

text \<open>
  Claim C10. On a bound operator whose table holds one container per patch for every level of
  the range and every axis, \<open>numberOfEntries\<close> with \<open>interior_only\<close> returns the number of
  spatial entities (the sizes of the non-overlapping boxes summed over levels, patches, axes
  and boxes) multiplied once, after the sum, by the depth of the factory of the data id. The
  value is a \<^verbatim>\<open>size_t\<close>: it is that product whenever the product fits 64 bits.
\<close>

theorem interior_entries_times_depth:
  assumes "bound ops" and "d_hierarchy ops = Some h"
    and "getPatchDataFactory h data_id = Some dfact" and "decomposition_sized ops"
  shows
    "numberOfEntries checked ops data_id True =
       ([], Inr (of_nat (spatial_entities ops) * of_int (getDepth dfact)))
     \<and> (0 \<le> getDepth dfact \<and> spatial_entities ops * nat (getDepth dfact) < 2 ^ 64 \<longrightarrow>
          (\<exists>entries. numberOfEntries checked ops data_id True = ([], Inr entries)
             \<and> unat entries = spatial_entities ops * nat (getDepth dfact)))"
proof -
  have n: "numberOfEntries checked ops data_id True =
       ([], Inr (of_nat (spatial_entities ops) * of_int (getDepth dfact)))"
    using assms by (rule numberOfEntries_interior_sum)
  have "unat (of_nat (spatial_entities ops) * of_int (getDepth dfact) :: 64 word)
      = spatial_entities ops * nat (getDepth dfact)"
    if d: "0 \<le> getDepth dfact" and fit: "spatial_entities ops * nat (getDepth dfact) < 2 ^ 64"
  proof -
    from d have "(of_int (getDepth dfact) :: 64 word) = of_nat (nat (getDepth dfact))" by simp
    then have e: "(of_nat (spatial_entities ops) * of_int (getDepth dfact) :: 64 word)
        = of_nat (spatial_entities ops * nat (getDepth dfact))"
      by (simp only: of_nat_mult)
    have "unat (of_nat (spatial_entities ops * nat (getDepth dfact)) :: 64 word)
        = spatial_entities ops * nat (getDepth dfact)"
      using fit by (simp only: unat_of_nat) simp
    with e show ?thesis by (simp only:)
  qed
  with n show ?thesis by simp
qed

theorem interior_entries_times_depth_witness:
  "bound (example_ops 1) \<and> decomposition_sized (example_ops 1)
   \<and> spatial_entities (example_ops 1) = 7
   \<and> numberOfEntries True (example_ops 1) 0 True = ([], Inr 7)
   \<and> numberOfEntries True (example_ops 1) 2 True = ([], Inr 14)"
proof -
  have f: "getPatchDataFactory (example_hierarchy 1) 0 = Some \<lparr>getDepth = 1, getGhostCellWidth = [1, 1]\<rparr>"
    "getPatchDataFactory (example_hierarchy 1) 2 = Some \<lparr>getDepth = 2, getGhostCellWidth = [1, 1]\<rparr>"
    by (simp_all add: example_hierarchy_def)
  from interior_entries_times_depth [OF example_bound example_fields(2) f(1) example_sized,
      where checked=True]
  have "numberOfEntries True (example_ops 1) 0 True = ([], Inr 7)"
    by (simp add: example_spatial_entities)
  moreover
  from interior_entries_times_depth [OF example_bound example_fields(2) f(2) example_sized,
      where checked=True]
  have "numberOfEntries True (example_ops 1) 2 True = ([], Inr 14)"
    by (simp add: example_spatial_entities)
  ultimately show ?thesis
    using example_bound [of 1] example_sized [of 1] example_spatial_entities [of 1] by simp
qed

lemma sum_list_swap:
  "sum_list (map (\<lambda>i. sum_list (map (\<lambda>j. f i j) ys)) xs)
     = (sum_list (map (\<lambda>j. sum_list (map (\<lambda>i. f i j) xs)) ys) :: nat)"
  by (induction xs) (simp_all add: sum_list_addf)

lemma sum_list_containers:
  "sum_list (map (\<lambda>il. sum_list (map g (V ! il))) [0..<length V])
     = (sum_list (map g (concat V)) :: nat)"
proof -
  have "map (\<lambda>il. sum_list (map g (V ! il))) [0..<length V] = map (\<lambda>v. sum_list (map g v)) V"
    by (rule nth_equalityI) simp_all
  moreover have "sum_list (map (\<lambda>v. sum_list (map g v)) V) = sum_list (map g (concat V))"
    by (induction V) simp_all
  ultimately show ?thesis by simp
qed

lemma level_edge_boxes_size:
  "sum_list (map box_size (concat (level_edge_boxes toEdgeBox h nd ln)))
     = card (\<Union>b\<in>set (getBoxes (patch_levels h ! nat ln)). box_points (toEdgeBox b nd))"
  by (simp add: level_edge_boxes_def makeNonOverlappingBoxContainers_size)

lemma length_level_edge_boxes:
  "length (level_edge_boxes toEdgeBox h nd ln) = length (getBoxes (patch_levels h ! nat ln))"
  by (simp add: level_edge_boxes_def makeNonOverlappingBoxContainers_partition(3))

lemma level_entities_decomposition:
  assumes at: "\<And>nd. nd < getDim h \<Longrightarrow>
        d_nonoverlapping_edge_boxes ops ! nd ! nat ln = level_edge_boxes toEdgeBox h nd ln"
    and np: "getNumberOfPatches (patch_levels h ! nat ln) =
        int (length (getBoxes (patch_levels h ! nat ln)))"
  shows "level_entities ops h ln =
     sum_list (map (\<lambda>nd.
         card (\<Union>b\<in>set (getBoxes (patch_levels h ! nat ln)). box_points (toEdgeBox b nd)))
       [0..<getDim h])"
proof -
  let ?n = "length (getBoxes (patch_levels h ! nat ln))"
  let ?V = "\<lambda>nd. level_edge_boxes toEdgeBox h nd ln"
  have "level_entities ops h ln =
      sum_list (map (\<lambda>il. sum_list (map (\<lambda>eb. sum_list (map box_size (?V eb ! il)))
                                     [0..<getDim h])) [0..<?n])"
  proof -
    have "map (\<lambda>eb. sum_list (map box_size (d_nonoverlapping_edge_boxes ops ! eb ! nat ln ! il)))
            [0..<getDim h]
        = map (\<lambda>eb. sum_list (map box_size (?V eb ! il))) [0..<getDim h]" for il
      by (rule map_cong [OF refl]) (simp add: at)
    then show ?thesis
      by (simp only: level_entities_def np nat_int)
  qed
  also have "\<dots> = sum_list (map (\<lambda>eb. sum_list (map (\<lambda>il. sum_list (map box_size (?V eb ! il)))
                                     [0..<?n])) [0..<getDim h])"
    by (rule sum_list_swap)
  also have "\<dots> = sum_list (map (\<lambda>eb. sum_list (map box_size (concat (?V eb)))) [0..<getDim h])"
    using sum_list_containers [of box_size "?V eb" for eb]
    by (simp add: length_level_edge_boxes)
  finally show ?thesis
    by (simp only: level_edge_boxes_size)
qed

text \<open>
  Claim C1. After \<^verbatim>\<open>resetLevels\<close> has built the table for a valid level range (for each
  level and axis, the non-overlapping decomposition of the level's boxes converted to edge
  boxes), \<open>numberOfEntries\<close> with \<open>interior_only\<close> returns, for every data id with a factory,
  the number of distinct edge entities of the range times the depth: the count is the sum of
  the sizes of the boxes of the table, and equals the cardinality of the union of the edge
  boxes, in which an entity on the boundary shared by two patches is one element.
\<close>

theorem interior_entries_count_each_edge_once:
  assumes h: "d_hierarchy ops0 = Some h"
    and v: "levels_valid h coarsest_level finest_level"
    and dim: "getDim h \<le> length (d_nonoverlapping_edge_boxes ops0)"
    and np: "\<forall>ln\<in>set [coarsest_level..finest_level].
        getNumberOfPatches (patch_levels h ! nat ln) =
          int (length (getBoxes (patch_levels h ! nat ln)))"
    and fact: "getPatchDataFactory h data_id = Some dfact"
    and r: "resetLevels checked toEdgeBox ops0 coarsest_level finest_level = Inr ops"
  shows
    "(\<forall>ln\<in>set [coarsest_level..finest_level]. \<forall>nd<getDim h.
        edge_boxes_at (d_nonoverlapping_edge_boxes ops) nd ln =
          Some (makeNonOverlappingBoxContainers
                  (map (\<lambda>b. toEdgeBox b nd) (getBoxes (patch_levels h ! nat ln)))))
     \<and> spatial_entities ops = distinct_edges toEdgeBox h coarsest_level finest_level
     \<and> numberOfEntries checked ops data_id True =
         ([], Inr (of_nat (distinct_edges toEdgeBox h coarsest_level finest_level)
                    * of_int (getDepth dfact)))"
proof -
  from resetLevels_success [OF h v dim, of checked toEdgeBox] r obtain tbl where
    ops: "ops = ops0\<lparr>d_coarsest_level := coarsest_level, d_finest_level := finest_level,
                      d_nonoverlapping_edge_boxes := tbl\<rparr>"
    and at: "\<forall>nd<getDim h. \<forall>ln. coarsest_level \<le> ln \<and> ln \<le> finest_level \<longrightarrow>
                edge_boxes_at tbl nd ln = Some (level_edge_boxes toEdgeBox h nd ln)"
    by auto
  have f: "d_hierarchy ops = Some h" "d_coarsest_level ops = coarsest_level"
    "d_finest_level ops = finest_level" "d_nonoverlapping_edge_boxes ops = tbl"
    by (simp_all add: ops h)
  have b: "bound ops"
    by (simp add: bound_def f v)
  have at': "edge_boxes_at tbl nd ln = Some (level_edge_boxes toEdgeBox h nd ln)"
    if "ln \<in> set [coarsest_level..finest_level]" "nd < getDim h" for nd ln
    using at that by simp
  have s: "decomposition_sized ops"
    using np by (simp add: decomposition_sized_def f list_all_iff at' length_level_edge_boxes)
  have lvl: "level_entities ops h ln =
     sum_list (map (\<lambda>nd.
         card (\<Union>b\<in>set (getBoxes (patch_levels h ! nat ln)). box_points (toEdgeBox b nd)))
       [0..<getDim h])" if ln: "ln \<in> set [coarsest_level..finest_level]" for ln
  proof (rule level_entities_decomposition)
    fix nd assume "nd < getDim h"
    from edge_boxes_at_SomeD [OF at' [OF ln this]]
    show "d_nonoverlapping_edge_boxes ops ! nd ! nat ln = level_edge_boxes toEdgeBox h nd ln"
      by (simp add: f)
  next
    from np ln show "getNumberOfPatches (patch_levels h ! nat ln) =
        int (length (getBoxes (patch_levels h ! nat ln)))" by blast
  qed
  have e: "spatial_entities ops = distinct_edges toEdgeBox h coarsest_level finest_level"
  proof -
    have "map (level_entities ops h) [coarsest_level..finest_level]
        = map (\<lambda>ln. sum_list (map (\<lambda>nd.
             card (\<Union>b\<in>set (getBoxes (patch_levels h ! nat ln)). box_points (toEdgeBox b nd)))
           [0..<getDim h])) [coarsest_level..finest_level]"
      by (rule map_cong [OF refl]) (rule lvl)
    then show ?thesis
      by (simp only: spatial_entities_def distinct_edges_def f option.case)
  qed
  have n: "numberOfEntries checked ops data_id True =
         ([], Inr (of_nat (distinct_edges toEdgeBox h coarsest_level finest_level)
                    * of_int (getDepth dfact)))"
    using numberOfEntries_interior_sum [OF b f(1) fact s, of checked] by (simp only: e)
  from at' e n show ?thesis
    by (simp add: f level_edge_boxes_def)
qed

lemma example_distinct_edges: "distinct_edges toEdgeBox_spec (example_hierarchy n) 0 0 = 7"
  unfolding distinct_edges_def level_edge_boxes_size [of toEdgeBox_spec, symmetric]
  by (simp add: level_edge_boxes_def example_hierarchy_def example_level_def toEdgeBox_spec_def
      example_decomposition box_size_def box_empty_def example_upto upt_conv_Cons
      numeral_2_eq_2)

lemma example_raw_edges: "raw_edges toEdgeBox_spec (example_hierarchy n) 0 0 = 8"
  by (simp add: raw_edges_def example_hierarchy_def example_level_def toEdgeBox_spec_def
      box_size_def box_empty_def example_upto upt_conv_Cons numeral_2_eq_2)

theorem interior_entries_count_each_edge_once_witness:
  "levels_valid (example_hierarchy 1) 0 0
   \<and> resetLevels True toEdgeBox_spec
       \<lparr>d_hierarchy = Some (example_hierarchy 1), d_coarsest_level = 0, d_finest_level = 0,
        d_nonoverlapping_edge_boxes = replicate MAX_DIM_VAL [],
        d_patch_ops = example_patch_ops\<rparr> 0 0 = Inr (example_ops 1)
   \<and> distinct_edges toEdgeBox_spec (example_hierarchy 1) 0 0 = 7
   \<and> raw_edges toEdgeBox_spec (example_hierarchy 1) 0 0 = 8
   \<and> numberOfEntries True (example_ops 1) 0 True = ([], Inr 7)"
proof -
  let ?ops0 = "\<lparr>d_hierarchy = Some (example_hierarchy 1), d_coarsest_level = 0, d_finest_level = 0,
        d_nonoverlapping_edge_boxes = replicate MAX_DIM_VAL [],
        d_patch_ops = example_patch_ops\<rparr>"
  have h: "d_hierarchy ?ops0 = Some (example_hierarchy 1)" by simp
  have v: "levels_valid (example_hierarchy 1) 0 0"
    by (simp add: levels_valid_def getFinestLevelNumber_def example_hierarchy_def)
  have dim: "getDim (example_hierarchy 1) \<le> length (d_nonoverlapping_edge_boxes ?ops0)"
    by (simp add: example_hierarchy_def MAX_DIM_VAL_def)
  have np: "\<forall>ln\<in>set [0..0].
        getNumberOfPatches (patch_levels (example_hierarchy 1) ! nat ln) =
          int (length (getBoxes (patch_levels (example_hierarchy 1) ! nat ln)))"
    by (simp add: example_upto example_hierarchy_def example_level_def)
  have fact: "getPatchDataFactory (example_hierarchy 1) 0 =
      Some \<lparr>getDepth = 1, getGhostCellWidth = [1, 1]\<rparr>"
    by (simp add: example_hierarchy_def)
  from interior_entries_count_each_edge_once [OF h v dim np fact example_reset]
  have "numberOfEntries True (example_ops 1) 0 True = ([], Inr 7)"
    by (simp add: example_distinct_edges)
  with v example_reset [of True 1] example_distinct_edges [of 1] example_raw_edges [of 1]
  show ?thesis by simp
qed

end
